theory Spec2Isabelle
  imports Main "HOL-Library.Word"
begin

section \<open>Machine types\<close>

text \<open>
  \<open>idx_t\<close> is DuckDB's unsigned 64-bit index type and \<open>sel_t\<close> the 32-bit entry type of
  a selection vector. Loop counters and container sizes, which never wrap in the code
  below, are natural numbers; values whose width matters (row identifiers, row counts,
  selection-vector entries) are words.
\<close>

type_synonym sel_t = "32 word"
type_synonym int64_t = "64 word"
type_synonym uintptr_t = "64 word"

section \<open>The selection vector of a batch\<close>

text \<open>
  \<open>ffi::KernelBoolSlice\<close>: a pointer to a buffer of booleans and its length. The pointer
  may be null (\<open>None\<close>). An entry \<open>True\<close> means that the row is kept.
\<close>

record KernelBoolSlice =
  ptr :: "bool list option"
  len :: uintptr_t

text \<open>
  The view of the row-id column that \<open>Vector::ToUnifiedFormat\<close> hands out: the
  indirection \<open>data.sel->get_index\<close> and the array of 64-bit signed values behind it.
\<close>

record UnifiedVectorFormat =
  get_index :: "nat \<Rightarrow> nat"
  row_ids :: "nat \<Rightarrow> int64_t"

text \<open>
  \<open>dv.ptr[row_id]\<close>: \<open>row_id\<close> is a signed 64-bit value. Reading through a null pointer,
  at a negative index or past the buffer has no defined result (\<open>None\<close>).
\<close>

definition dv_read :: "KernelBoolSlice \<Rightarrow> int64_t \<Rightarrow> bool option" where
  "dv_read dv row_id =
     (case ptr dv of
        None \<Rightarrow> None
      | Some bs \<Rightarrow>
          if 0 \<le> sint row_id \<and> nat (sint row_id) < length bs
          then Some (bs ! nat (sint row_id)) else None)"

text \<open>
  The loop of \<open>DuckSVFromDeltaSV\<close>. \<open>result\<close> is the buffer of \<open>count\<close> entries of the
  selection vector and \<open>current_select\<close> the number of entries written so far. The
  comparison \<open>row_id >= dv.len\<close> is between \<open>int64_t\<close> and \<open>uintptr_t\<close>, hence unsigned;
  \<open>||\<close> reads the bitmap only when the comparison fails. The store of the 64-bit
  counter \<open>i\<close> into a \<open>sel_t\<close> truncates; a store past the buffer has no defined result.
\<close>

function DuckSVFromDeltaSV_loop ::
  "KernelBoolSlice \<Rightarrow> UnifiedVectorFormat \<Rightarrow> nat \<Rightarrow> nat \<Rightarrow> sel_t list \<Rightarrow> nat
     \<Rightarrow> (sel_t list \<times> nat) option" where
  "DuckSVFromDeltaSV_loop dv data count i result current_select =
     (if i < count then
        (let row_id = row_ids data (get_index data i) in
         case (if len dv \<le> row_id then Some True else dv_read dv row_id) of
           None \<Rightarrow> None
         | Some True \<Rightarrow>
             if current_select < length result
             then DuckSVFromDeltaSV_loop dv data count (i + 1)
                    (result[current_select := word_of_nat i]) (current_select + 1)
             else None
         | Some False \<Rightarrow> DuckSVFromDeltaSV_loop dv data count (i + 1) result current_select)
      else Some (result, current_select))"
  by pat_completeness auto
termination
  by (relation "measure (\<lambda>(dv, data, count, i, result, current_select). count - i)") auto

declare DuckSVFromDeltaSV_loop.simps [simp del]

text \<open>
  \<open>DuckSVFromDeltaSV\<close> returns the selection vector and, through \<open>select_count\<close>, the
  number of entries it wrote. \<open>SelectionVector result {count}\<close> allocates \<open>count\<close>
  entries; the entries past \<open>select_count\<close> are never written (they are \<open>0\<close> here).
\<close>

definition DuckSVFromDeltaSV ::
  "KernelBoolSlice \<Rightarrow> UnifiedVectorFormat \<Rightarrow> nat \<Rightarrow> (sel_t list \<times> nat) option" where
  "DuckSVFromDeltaSV dv row_id_column count =
     DuckSVFromDeltaSV_loop dv row_id_column count 0 (replicate count 0) 0"

text \<open>
  The contract in the specification's words: a row is kept when its ordinal is at least
  the length of the bitmap, or when the bitmap marks the ordinal as kept.
\<close>

definition row_ordinal :: "UnifiedVectorFormat \<Rightarrow> nat \<Rightarrow> int" where
  "row_ordinal data i = sint (row_ids data (get_index data i))"

definition keeps_row :: "bool list \<Rightarrow> UnifiedVectorFormat \<Rightarrow> nat \<Rightarrow> bool" where
  "keeps_row bitmap data i =
     (int (length bitmap) \<le> row_ordinal data i \<or> bitmap ! nat (row_ordinal data i))"

definition kept_rows :: "bool list \<Rightarrow> UnifiedVectorFormat \<Rightarrow> nat \<Rightarrow> nat list" where
  "kept_rows bitmap data count = filter (keeps_row bitmap data) [0..<count]"

section \<open>Errors\<close>

text \<open>
  Every \<open>throw\<close> of the code is a value. \<open>KernelError\<close> is an error result of the
  log-replay engine that \<open>TryUnpackKernelResult\<close> or \<open>KernelUtils::UnpackResult\<close> rethrows.
  \<open>Undefined\<close> marks a step for which C++ defines no result (a read of an uninitialised
  variable, a read through a null pointer).
\<close>

datatype error =
    KernelError string
  | IOException string
  | InternalException string
  | InvalidInputException string
  | Undefined string

section \<open>Strings\<close>

text \<open>
  DuckDB's \<open>StringUtil\<close>: \<open>StartsWith\<close>, \<open>RTrim\<close> with a set of characters to trim (the
  trailing characters of the string that belong to the set are removed) and the ASCII
  lower-casing behind \<open>case_insensitive_map_t\<close>.
\<close>

definition StartsWith :: "string \<Rightarrow> string \<Rightarrow> bool" where
  "StartsWith str prefix_str = (take (length prefix_str) str = prefix_str)"

definition RTrim :: "string \<Rightarrow> string \<Rightarrow> string" where
  "RTrim str chars_to_trim = rev (dropWhile (\<lambda>ch. ch \<in> set chars_to_trim) (rev str))"

definition CharacterToLower :: "char \<Rightarrow> char" where
  "CharacterToLower c =
     (let n = (of_char c :: nat) in if 65 \<le> n \<and> n \<le> 90 then char_of (n + 32) else c)"

definition Lower :: "string \<Rightarrow> string" where
  "Lower str = map CharacterToLower str"

definition CIEquals :: "string \<Rightarrow> string \<Rightarrow> bool" where
  "CIEquals l1 l2 = (Lower l1 = Lower l2)"

subsection \<open>Case-insensitive maps\<close>

text \<open>
  \<open>case_insensitive_map_t<V>\<close> is an unordered map whose keys are compared with
  \<open>CIEquals\<close>: an association list with at most one entry for each class of keys.
  \<open>ci_find\<close> is \<open>find\<close>, \<open>ci_assign\<close> is \<open>m[key] = v\<close> (it overwrites) and \<open>ci_insert\<close> is
  \<open>insert\<close> (it keeps an entry that is already there).
\<close>

type_synonym 'v case_insensitive_map_t = "(string \<times> 'v) list"

fun ci_find :: "'v case_insensitive_map_t \<Rightarrow> string \<Rightarrow> 'v option" where
  "ci_find [] key = None"
| "ci_find ((k, v) # m) key = (if CIEquals k key then Some v else ci_find m key)"

fun ci_assign :: "'v case_insensitive_map_t \<Rightarrow> string \<Rightarrow> 'v \<Rightarrow> 'v case_insensitive_map_t" where
  "ci_assign [] key v = [(key, v)]"
| "ci_assign ((k, w) # m) key v =
     (if CIEquals k key then (k, v) # m else (k, w) # ci_assign m key v)"

definition ci_insert :: "'v case_insensitive_map_t \<Rightarrow> string \<Rightarrow> 'v \<Rightarrow> 'v case_insensitive_map_t" where
  "ci_insert m key v = (case ci_find m key of None \<Rightarrow> m @ [(key, v)] | Some w \<Rightarrow> m)"

section \<open>Resolving a file path\<close>

subsection \<open>The C library's \<open>sscanf\<close> with the format \<open>%x\<close>\<close>

text \<open>
  \<open>sscanf(s, "%x", &ii)\<close> reads the C string \<open>s\<close> (it ends at the first NUL), skips white
  space, and converts the longest sequence that is an optionally signed hexadecimal
  number with an optional prefix \<open>0x\<close>, as \<open>strtoul\<close> with base 16 does; the value is
  stored in an \<open>unsigned int\<close>. When there is nothing to convert, \<open>ii\<close> is not written
  (\<open>None\<close>).
\<close>

definition c_str :: "string \<Rightarrow> string" where
  "c_str s = takeWhile (\<lambda>c. c \<noteq> CHR 0x00) s"

definition isspace :: "char \<Rightarrow> bool" where
  "isspace c = (c \<in> set [CHR '' '', CHR 0x09, CHR 0x0A, CHR 0x0B, CHR 0x0C, CHR 0x0D])"

definition hex_val :: "char \<Rightarrow> nat option" where
  "hex_val c =
     (let n = (of_char c :: nat) in
      if 48 \<le> n \<and> n \<le> 57 then Some (n - 48)
      else if 97 \<le> n \<and> n \<le> 102 then Some (n - 87)
      else if 65 \<le> n \<and> n \<le> 70 then Some (n - 55)
      else None)"

fun xdigits :: "string \<Rightarrow> nat list" where
  "xdigits [] = []"
| "xdigits (c # cs) = (case hex_val c of None \<Rightarrow> [] | Some d \<Rightarrow> d # xdigits cs)"

definition unsigned_hex :: "string \<Rightarrow> nat option" where
  "unsigned_hex t =
     (let ds = xdigits (if take 2 t = ''0x'' \<or> take 2 t = ''0X'' then drop 2 t else t)
      in if ds = [] then None else Some (foldl (\<lambda>a d. 16 * a + d) 0 ds))"

definition sscanf_x :: "string \<Rightarrow> nat option" where
  "sscanf_x s =
     (case dropWhile isspace (c_str s) of
        [] \<Rightarrow> None
      | c # t \<Rightarrow>
          if c = CHR ''-'' then map_option (\<lambda>v. (2 ^ 32 - v mod 2 ^ 32) mod 2 ^ 32) (unsigned_hex t)
          else if c = CHR ''+'' then map_option (\<lambda>v. v mod 2 ^ 32) (unsigned_hex t)
          else map_option (\<lambda>v. v mod 2 ^ 32) (unsigned_hex (c # t)))"

subsection \<open>\<open>url_decode\<close>\<close>

text \<open>
  The loop of \<open>url_decode\<close> over the index \<open>i\<close>. At a percent sign (character 37) the
  two characters \<open>input.substr(i + 1, 2)\<close> (fewer at the end of the string) go through
  \<open>sscanf\<close>, the \<open>unsigned int\<close> is cast to a \<open>char\<close> (its low eight bits) and \<open>i\<close> advances
  by two more. When \<open>sscanf\<close> converts nothing the code reads the uninitialised \<open>ii\<close>, for
  which there is no defined result: the model stops with \<open>None\<close>.
\<close>

function url_decode_loop :: "string \<Rightarrow> nat \<Rightarrow> string \<Rightarrow> string option" where
  "url_decode_loop input i result =
     (if i < length input then
        (if input ! i = CHR ''%'' then
           (case sscanf_x (take 2 (drop (i + 1) input)) of
              None \<Rightarrow> None
            | Some ii \<Rightarrow> url_decode_loop input (i + 2 + 1) (result @ [char_of ii]))
         else url_decode_loop input (i + 1) (result @ [input ! i]))
      else Some result)"
  by pat_completeness auto
termination
  by (relation "measure (\<lambda>(input, i, result). length input - i)") auto

declare url_decode_loop.simps [simp del]

definition url_decode :: "string \<Rightarrow> string option" where
  "url_decode input =
     url_decode_loop (map (\<lambda>c. if c = CHR ''+'' then CHR '' '' else c) input) 0 []"

subsection \<open>Paths of DuckDB and of the engine\<close>

definition ToDuckDBPath :: "string \<Rightarrow> string" where
  "ToDuckDBPath raw_path = (if StartsWith raw_path ''file://'' then drop 7 raw_path else raw_path)"

text \<open>
  \<open>LocalFileSystem::JoinPath\<close>, and \<open>ToDeltaPath\<close> with the working directory \<open>cwd\<close> as a
  parameter. \<open>path[path.size() - 1]\<close> on the empty string reads outside the string.
\<close>

definition JoinPath :: "string \<Rightarrow> string \<Rightarrow> string" where
  "JoinPath a b = (if a = [] then b else if last a = CHR ''/'' then a @ b else a @ ''/'' @ b)"

definition ToDeltaPath :: "string \<Rightarrow> string \<Rightarrow> error + string" where
  "ToDeltaPath cwd raw_path =
     (let path = (if StartsWith raw_path ''./''
                  then ''file://'' @ JoinPath cwd (drop 2 raw_path) else raw_path)
      in if path = [] then Inl (Undefined ''ToDeltaPath: index into an empty path'')
         else if last path \<noteq> CHR ''/'' then Inr (path @ ''/'') else Inr path)"

section \<open>The types of the host engine\<close>

datatype LogicalType =
    BOOLEAN | INTEGER | BIGINT | UBIGINT | DOUBLE | VARCHAR | BLOB | DATE | TIMESTAMP
  | OtherType string

text \<open>
  The values the code builds: \<open>Value(type)\<close> is the NULL of a type, \<open>Value(str)\<close> a string;
  \<open>Value_OTHER\<close> stands for the values of the other types, which only a cast produces.
\<close>

datatype Value =
    Value_NULL LogicalType
  | Value_UBIGINT "64 word"
  | Value_BLOB_RAW string
  | Value_VARCHAR string
  | Value_OTHER LogicalType string

record MultiFileReaderColumnDefinition =
  name :: string
  type :: LogicalType

definition INVALID_INDEX :: nat where
  "INVALID_INDEX = 2 ^ 64 - 1"

definition COLUMN_IDENTIFIER_ROW_ID :: nat where
  "COLUMN_IDENTIFIER_ROW_ID = 2 ^ 64 - 1"

definition IsRowIdColumnId :: "nat \<Rightarrow> bool" where
  "IsRowIdColumnId column_id = (column_id = COLUMN_IDENTIFIER_ROW_ID)"

text \<open>
  \<open>NodeStatistics(estimated, max)\<close>; a null \<open>unique_ptr<NodeStatistics>\<close> (no statistics)
  is \<open>None\<close>.
\<close>

record NodeStatistics =
  estimated_cardinality :: "64 word"
  max_cardinality :: "64 word"

text \<open>
  What the code asks of the host engine and of its environment: the filter combiner, the
  rendering of a table filter, the default cast of a string to a type (it can throw),
  the working directory, the profiler and the setting
  \<open>delta_scan_explain_files_filtered\<close> (\<open>None\<close> when the setting is not registered),
  and where \<open>std::unordered_map\<close> places a second key in its iteration order.
  Filter expressions and table filters are opaque tokens.
\<close>

type_synonym Expression = nat
type_synonym TableFilter = nat
type_synonym TableFilterSet = "(nat \<times> TableFilter) list"

record DuckDB =
  GenerateTableScanFilters :: "Expression list \<Rightarrow> nat list \<Rightarrow> TableFilterSet"
  FilterToString :: "TableFilter \<Rightarrow> string \<Rightarrow> string"
  DefaultCastAs :: "string \<Rightarrow> LogicalType \<Rightarrow> error + Value"
  GetWorkingDirectory :: string
  profiler_IsEnabled :: bool
  delta_scan_explain_files_filtered :: "bool option"
  inserted_key_iterates_first :: bool

section \<open>The log-replay engine\<close>

text \<open>
  One invocation of the visitor callback: the relative path of a file, its size, the
  row count of its statistics (when it has statistics), the result that
  \<open>ffi::selection_vector_from_dv\<close> gives for its deletion vector, and its partition
  values (name and literal).
\<close>

record ScanFile =
  path :: string
  file_size :: int
  stats :: "64 word option"
  dv_info :: "error + KernelBoolSlice"
  partition_values :: "(string \<times> string) list"

text \<open>
  The engine is a record of its answers. Handles are numbers. A scan-data iterator is
  the finite list of the results that \<open>ffi::kernel_scan_data_next\<close> still has to give:
  an error, or a batch of files for which the engine calls the visitor; at the end of
  the list the engine reports that there is no more data. The transaction log of a
  table version is finite, and so is the list.
\<close>

type_synonym KernelScanDataIterator = "(error + ScanFile list) list"

record Kernel =
  builder_build :: "string \<Rightarrow> error + nat"
  ffi_snapshot :: "string \<Rightarrow> nat \<Rightarrow> error + nat"
  ffi_version :: "nat \<Rightarrow> nat"
  VisitSnapshotSchema :: "nat \<Rightarrow> (string \<times> LogicalType) list"
  ffi_scan :: "nat \<Rightarrow> nat \<Rightarrow> string list \<Rightarrow> TableFilterSet \<Rightarrow> error + nat"
  ffi_get_global_scan_state :: "nat \<Rightarrow> nat"
  ffi_kernel_scan_data_init :: "nat \<Rightarrow> nat \<Rightarrow> error + KernelScanDataIterator"

section \<open>The snapshot file list\<close>

text \<open>
  Modelled from the spec: the declarations of \<open>DeltaFileMetaData\<close> and \<open>DeltaSnapshot\<close>
  (the header \<open>functions/delta_scan.hpp\<close>) are not among the sources. The fields are the
  ones the code reads and writes. A new \<open>DeltaFileMetaData\<close> has no row-count estimate
  (\<open>DConstants::INVALID_INDEX\<close>, which the code tests for), no deletion bitmap (a null
  pointer, which the code tests for) and an empty partition map; a new \<open>DeltaSnapshot\<close>
  has started nothing, has no files and no version.
\<close>

record DeltaFileMetaData =
  delta_snapshot_version :: nat
  file_number :: nat
  cardinality :: "64 word"
  selection_vector :: KernelBoolSlice
  partition_map :: "string case_insensitive_map_t"

definition new_DeltaFileMetaData :: DeltaFileMetaData where
  "new_DeltaFileMetaData =
     \<lparr>delta_snapshot_version = INVALID_INDEX, file_number = INVALID_INDEX,
      cardinality = word_of_nat INVALID_INDEX, selection_vector = \<lparr>ptr = None, len = 0\<rparr>,
      partition_map = []\<rparr>"

record DeltaSnapshot =
  paths :: "string list"
  version :: "nat option"
  snapshot :: "nat option"
  extern_engine :: "nat option"
  scan :: "nat option"
  global_state :: "nat option"
  scan_data_iterator :: KernelScanDataIterator
  names :: "string list"
  types :: "LogicalType list"
  have_bound :: bool
  metadata :: "DeltaFileMetaData list"
  initialized_snapshot :: bool
  initialized_scan :: bool
  files_exhausted :: bool
  resolved_files :: "string list"
  table_filters :: TableFilterSet

text \<open>The constructor: \<open>MultiFileList({ToDeltaPath(path)}, ...)\<close>.\<close>

definition new_DeltaSnapshot :: "DuckDB \<Rightarrow> string \<Rightarrow> error + DeltaSnapshot" where
  "new_DeltaSnapshot db raw_path =
     (case ToDeltaPath (GetWorkingDirectory db) raw_path of
        Inl e \<Rightarrow> Inl e
      | Inr p \<Rightarrow>
          Inr \<lparr>paths = [p], version = None, snapshot = None, extern_engine = None,
               scan = None, global_state = None, scan_data_iterator = [], names = [],
               types = [], have_bound = False, metadata = [], initialized_snapshot = False,
               initialized_scan = False, files_exhausted = False, resolved_files = [],
               table_filters = []\<rparr>)"

text \<open>
  \<open>GetPath\<close> is \<open>GetPaths()[0]\<close>; DuckDB's \<open>vector\<close> checks the index and throws an
  \<open>InternalException\<close> when it is out of range.
\<close>

definition vector_at :: "'a list \<Rightarrow> nat \<Rightarrow> error + 'a" where
  "vector_at xs i =
     (if i < length xs then Inr (xs ! i)
      else Inl (InternalException ''Attempted to access index within vector of size''))"

definition GetPath :: "DeltaSnapshot \<Rightarrow> error + string" where
  "GetPath s = vector_at (paths s) 0"

subsection \<open>The visitor callback\<close>

text \<open>
  \<open>VisitCallback\<close>, invoked by the engine once for each file of a batch. The partition
  map is built by looking up every bound column name in the partition values of the
  file. The version is the one \<open>InitializeScan\<close> stored; before that the field is not
  initialised.
\<close>

definition VisitCallback :: "DeltaSnapshot \<Rightarrow> ScanFile \<Rightarrow> error + DeltaSnapshot" where
  "VisitCallback ctx f =
     (case GetPath ctx of
        Inl e \<Rightarrow> Inl e
      | Inr root \<Rightarrow>
     (case url_decode (RTrim root ''/'' @ ''/'' @ path f) of
        None \<Rightarrow> Inl (Undefined ''url_decode: sscanf converted nothing'')
      | Some path_string \<Rightarrow>
     (let files = resolved_files ctx @ [ToDuckDBPath path_string];
          metas = metadata ctx @ [new_DeltaFileMetaData]
      in
     (case version ctx of
        None \<Rightarrow> Inl (Undefined ''version is not initialised'')
      | Some v \<Rightarrow>
     (let m1 = (last metas)\<lparr>delta_snapshot_version := v, file_number := length files - 1\<rparr>;
          m2 = (case stats f of None \<Rightarrow> m1 | Some num_records \<Rightarrow> m1\<lparr>cardinality := num_records\<rparr>)
      in
     (case dv_info f of
        Inl e \<Rightarrow> Inl e
      | Inr sv \<Rightarrow>
     (let m3 = (if ptr sv \<noteq> None then m2\<lparr>selection_vector := sv\<rparr> else m2);
          constant_map =
            fold (\<lambda>col m. case map_of (partition_values f) col of
                             None \<Rightarrow> m
                           | Some partition_val \<Rightarrow> ci_assign m col partition_val)
                 (names ctx) []
      in Inr (ctx\<lparr>resolved_files := files,
                  metadata := butlast metas @ [m3\<lparr>partition_map := constant_map\<rparr>]\<rparr>))))))))"

text \<open>\<open>VisitData\<close>: \<open>ffi::visit_scan_data\<close> calls the visitor for every file of the batch.\<close>

fun VisitData :: "DeltaSnapshot \<Rightarrow> ScanFile list \<Rightarrow> error + DeltaSnapshot" where
  "VisitData ctx [] = Inr ctx"
| "VisitData ctx (f # fs) =
     (case VisitCallback ctx f of Inl e \<Rightarrow> Inl e | Inr ctx' \<Rightarrow> VisitData ctx' fs)"

subsection \<open>Opening the snapshot and the scan\<close>

text \<open>
  \<open>InitializeSnapshot\<close> builds the engine for the path (\<open>CreateBuilder\<close> and
  \<open>ffi::builder_build\<close>, one answer of the engine here) and opens the snapshot only when
  the list has none.
\<close>

definition InitializeSnapshot :: "Kernel \<Rightarrow> DeltaSnapshot \<Rightarrow> error + DeltaSnapshot" where
  "InitializeSnapshot k s =
     (case vector_at (paths s) 0 of
        Inl e \<Rightarrow> Inl e
      | Inr path_slice \<Rightarrow>
     (case builder_build k path_slice of
        Inl e \<Rightarrow> Inl e
      | Inr engine \<Rightarrow>
     (case snapshot s of
        Some h \<Rightarrow> Inr (s\<lparr>extern_engine := Some engine, initialized_snapshot := True\<rparr>)
      | None \<Rightarrow>
     (case ffi_snapshot k path_slice engine of
        Inl e \<Rightarrow> Inl e
      | Inr h \<Rightarrow>
          Inr (s\<lparr>extern_engine := Some engine, snapshot := Some h,
                 initialized_snapshot := True\<rparr>)))))"

definition InitializeScan :: "Kernel \<Rightarrow> DeltaSnapshot \<Rightarrow> error + DeltaSnapshot" where
  "InitializeScan k s =
     (case snapshot s of
        None \<Rightarrow> Inl (Undefined ''snapshot is null'')
      | Some snapshot_ref \<Rightarrow>
     (case extern_engine s of
        None \<Rightarrow> Inl (Undefined ''extern_engine is null'')
      | Some engine \<Rightarrow>
     (case ffi_scan k snapshot_ref engine (names s) (table_filters s) of
        Inl e \<Rightarrow> Inl e
      | Inr sc \<Rightarrow>
     (case ffi_kernel_scan_data_init k engine sc of
        Inl e \<Rightarrow> Inl e
      | Inr it \<Rightarrow>
          Inr (s\<lparr>scan := Some sc,
                 global_state := Some (ffi_get_global_scan_state k sc),
                 version := Some (ffi_version k snapshot_ref),
                 scan_data_iterator := it,
                 initialized_scan := True\<rparr>)))))"

subsection \<open>\<open>Bind\<close>\<close>

text \<open>
  \<open>Bind\<close> appends the schema of the snapshot to the two vectors of the caller and keeps
  them; once bound it returns what it kept.
\<close>

definition Bind ::
  "Kernel \<Rightarrow> LogicalType list \<Rightarrow> string list \<Rightarrow> DeltaSnapshot
     \<Rightarrow> error + ((LogicalType list \<times> string list) \<times> DeltaSnapshot)" where
  "Bind k return_types nms s =
     (if have_bound s then Inr ((types s, names s), s)
      else
        (case (if \<not> initialized_snapshot s then InitializeSnapshot k s else Inr s) of
           Inl e \<Rightarrow> Inl e
         | Inr s1 \<Rightarrow>
        (case snapshot s1 of
           None \<Rightarrow> Inl (Undefined ''snapshot is null'')
         | Some snapshot_ref \<Rightarrow>
             (let schema = VisitSnapshotSchema k snapshot_ref;
                  nms' = nms @ map fst schema;
                  return_types' = return_types @ map snd schema
              in Inr ((return_types', nms'),
                      s1\<lparr>have_bound := True, names := nms', types := return_types'\<rparr>)))))"

subsection \<open>\<open>GetFile\<close>\<close>

text \<open>
  The \<open>while\<close> loop of \<open>GetFileInternal\<close>: as long as the file \<open>i\<close> is not resolved, ask
  the engine for the next batch, which it delivers through \<open>VisitData\<close>; when the engine
  has no more data, mark the list as exhausted and return the empty string.
\<close>

lemma VisitCallback_scan_data_iterator:
  "VisitCallback ctx f = Inr ctx' \<Longrightarrow> scan_data_iterator ctx' = scan_data_iterator ctx"
  by (auto simp: VisitCallback_def Let_def split: sum.splits option.splits)

lemma VisitData_scan_data_iterator:
  "VisitData ctx fs = Inr ctx' \<Longrightarrow> scan_data_iterator ctx' = scan_data_iterator ctx"
  by (induction fs arbitrary: ctx)
     (auto split: sum.splits dest: VisitCallback_scan_data_iterator)

function GetFileInternal_loop :: "nat \<Rightarrow> DeltaSnapshot \<Rightarrow> error + (string \<times> DeltaSnapshot)" where
  "GetFileInternal_loop i s =
     (if i \<ge> length (resolved_files s) then
        (case scan_data_iterator s of
           [] \<Rightarrow> Inr ([], s\<lparr>files_exhausted := True\<rparr>)
         | have_scan_data_res # rest \<Rightarrow>
             (case have_scan_data_res of
                Inl e \<Rightarrow> Inl e
              | Inr batch \<Rightarrow>
                  (case VisitData (s\<lparr>scan_data_iterator := rest\<rparr>) batch of
                     Inl e \<Rightarrow> Inl e
                   | Inr s' \<Rightarrow> GetFileInternal_loop i s')))
      else Inr (resolved_files s ! i, s))"
  by pat_completeness auto
termination
  by (relation "measure (\<lambda>(i, s). length (scan_data_iterator s))")
     (auto dest: VisitData_scan_data_iterator)

declare GetFileInternal_loop.simps [simp del]

definition GetFileInternal ::
  "Kernel \<Rightarrow> nat \<Rightarrow> DeltaSnapshot \<Rightarrow> error + (string \<times> DeltaSnapshot)" where
  "GetFileInternal k i s =
     (case (if \<not> initialized_snapshot s then InitializeSnapshot k s else Inr s) of
        Inl e \<Rightarrow> Inl e
      | Inr s1 \<Rightarrow>
     (case (if \<not> initialized_scan s1 then InitializeScan k s1 else Inr s1) of
        Inl e \<Rightarrow> Inl e
      | Inr s2 \<Rightarrow>
          if i < length (resolved_files s2) then Inr (resolved_files s2 ! i, s2)
          else if files_exhausted s2 then Inr ([], s2)
          else GetFileInternal_loop i s2))"

text \<open>\<open>GetFile\<close> takes the lock of the list and calls \<open>GetFileInternal\<close>.\<close>

definition GetFile ::
  "Kernel \<Rightarrow> nat \<Rightarrow> DeltaSnapshot \<Rightarrow> error + (string \<times> DeltaSnapshot)" where
  "GetFile k i s = GetFileInternal k i s"

subsection \<open>Full expansion\<close>

text \<open>
  \<open>GetTotalFileCount\<close> and \<open>GetAllFiles\<close> run the same loop: starting at the number of
  resolved files, call \<open>GetFileInternal\<close> with the next index until it returns the empty
  string. The loop ends because every round with a non-empty result starts the scan,
  consumes a result of the engine or moves the index closer to the number of resolved
  files.
\<close>

lemma VisitCallback_initialized_scan:
  "VisitCallback ctx f = Inr ctx' \<Longrightarrow> initialized_scan ctx' = initialized_scan ctx"
  by (auto simp: VisitCallback_def Let_def split: sum.splits option.splits)

lemma VisitData_initialized_scan:
  "VisitData ctx fs = Inr ctx' \<Longrightarrow> initialized_scan ctx' = initialized_scan ctx"
  by (induction fs arbitrary: ctx)
     (auto split: sum.splits dest: VisitCallback_initialized_scan)

lemma GetFileInternal_loop_step:
  assumes "GetFileInternal_loop i s = Inr (p, s')"
    and "length (resolved_files s) \<le> i" and "scan_data_iterator s = r # rest"
  obtains batch s1 where "r = Inr batch"
    and "VisitData (s\<lparr>scan_data_iterator := rest\<rparr>) batch = Inr s1"
    and "GetFileInternal_loop i s1 = Inr (p, s')"
  using assms by (subst (asm) GetFileInternal_loop.simps) (auto split: sum.splits)

lemma GetFileInternal_loop_initialized_scan:
  "GetFileInternal_loop i s = Inr (p, s') \<Longrightarrow> initialized_scan s' = initialized_scan s"
proof (induction i s rule: GetFileInternal_loop.induct)
  case (1 i s)
  show ?case
  proof (cases "length (resolved_files s) \<le> i")
    case False
    with "1.prems" show ?thesis by (simp add: GetFileInternal_loop.simps)
  next
    case True
    show ?thesis
    proof (cases "scan_data_iterator s")
      case Nil
      with True "1.prems" show ?thesis by (auto simp: GetFileInternal_loop.simps)
    next
      case (Cons r rest)
      from "1.prems" True Cons obtain batch s1 where r: "r = Inr batch"
        and v: "VisitData (s\<lparr>scan_data_iterator := rest\<rparr>) batch = Inr s1"
        and l: "GetFileInternal_loop i s1 = Inr (p, s')"
        by (rule GetFileInternal_loop_step)
      from "1.IH" [OF True Cons r v l] VisitData_initialized_scan [OF v]
      show ?thesis by simp
    qed
  qed
qed

lemma GetFileInternal_loop_pulls:
  "GetFileInternal_loop i s = Inr (p, s') \<Longrightarrow>
     length (scan_data_iterator s') \<le> length (scan_data_iterator s) \<and>
     (length (resolved_files s) \<le> i \<longrightarrow> p \<noteq> [] \<longrightarrow>
        length (scan_data_iterator s') < length (scan_data_iterator s))"
proof (induction i s rule: GetFileInternal_loop.induct)
  case (1 i s)
  show ?case
  proof (cases "length (resolved_files s) \<le> i")
    case False
    with "1.prems" show ?thesis by (simp add: GetFileInternal_loop.simps)
  next
    case True
    show ?thesis
    proof (cases "scan_data_iterator s")
      case Nil
      with True "1.prems" show ?thesis by (auto simp: GetFileInternal_loop.simps)
    next
      case (Cons r rest)
      from "1.prems" True Cons obtain batch s1 where r: "r = Inr batch"
        and v: "VisitData (s\<lparr>scan_data_iterator := rest\<rparr>) batch = Inr s1"
        and l: "GetFileInternal_loop i s1 = Inr (p, s')"
        by (rule GetFileInternal_loop_step)
      from "1.IH" [OF True Cons r v l] VisitData_scan_data_iterator [OF v] Cons
      show ?thesis by simp
    qed
  qed
qed

lemma InitializeSnapshot_frame:
  "InitializeSnapshot k s = Inr s' \<Longrightarrow>
     initialized_scan s' = initialized_scan s \<and> scan_data_iterator s' = scan_data_iterator s
     \<and> resolved_files s' = resolved_files s"
  by (auto simp: InitializeSnapshot_def split: sum.splits option.splits)

lemma InitializeScan_initialized_scan:
  "InitializeScan k s = Inr s' \<Longrightarrow> initialized_scan s'"
  by (auto simp: InitializeScan_def split: sum.splits option.splits)

lemma GetFileInternal_decreases:
  assumes "GetFileInternal k i s = Inr (p, s')" and "p \<noteq> []"
  shows "((k, i + 1, s'), (k, i, s)) \<in>
           measures [\<lambda>(k, i, s). if initialized_scan s then 0 else 1,
                     \<lambda>(k, i, s). length (scan_data_iterator s),
                     \<lambda>(k, i, s). length (resolved_files s) - i]"
proof -
  from assms(1) obtain s1 s2 where
    s1: "(if \<not> initialized_snapshot s then InitializeSnapshot k s else Inr s) = Inr s1"
    and s2: "(if \<not> initialized_scan s1 then InitializeScan k s1 else Inr s1) = Inr s2"
    and r: "(if i < length (resolved_files s2) then Inr (resolved_files s2 ! i, s2)
             else if files_exhausted s2 then Inr ([], s2)
             else GetFileInternal_loop i s2) = Inr (p, s')"
    by (auto simp: GetFileInternal_def split: sum.splits)
  have f1: "initialized_scan s1 = initialized_scan s"
    "scan_data_iterator s1 = scan_data_iterator s" "resolved_files s1 = resolved_files s"
    using s1 by (auto split: if_splits dest: InitializeSnapshot_frame)
  have fin: "initialized_scan s2"
    using s2 by (auto split: if_splits dest: InitializeScan_initialized_scan)
  have fin': "initialized_scan s'"
    using r fin by (auto split: if_splits dest: GetFileInternal_loop_initialized_scan)
  show ?thesis
  proof (cases "initialized_scan s")
    case False
    with fin' show ?thesis by simp
  next
    case True
    with f1 s2 have eq: "s2 = s1" by simp
    show ?thesis
    proof (cases "i < length (resolved_files s2)")
      case lt: True
      with r have "s' = s2" by simp
      with lt eq f1 True fin' show ?thesis by auto
    next
      case ge: False
      with r assms(2) have l: "GetFileInternal_loop i s2 = Inr (p, s')"
        by (auto split: if_splits)
      from GetFileInternal_loop_pulls [OF l] ge assms(2)
      have "length (scan_data_iterator s') < length (scan_data_iterator s2)" by simp
      with eq f1 True fin' show ?thesis by auto
    qed
  qed
qed

function GetTotalFileCount_loop :: "Kernel \<Rightarrow> nat \<Rightarrow> DeltaSnapshot \<Rightarrow> error + DeltaSnapshot" where
  "GetTotalFileCount_loop k i s =
     (case GetFileInternal k i s of
        Inl e \<Rightarrow> Inl e
      | Inr (p, s') \<Rightarrow> if p \<noteq> [] then GetTotalFileCount_loop k (i + 1) s' else Inr s')"
  by pat_completeness auto
termination
proof (relation "measures [\<lambda>(k, i, s). if initialized_scan s then 0 else 1,
                     \<lambda>(k, i, s). length (scan_data_iterator s),
                     \<lambda>(k, i, s). length (resolved_files s) - i]")
  show "wf (measures [\<lambda>(k, i, s). if initialized_scan s then 0 else (1::nat),
                     \<lambda>(k, i, s). length (scan_data_iterator s),
                     \<lambda>(k, i, s). length (resolved_files s) - i])" by simp
next
  fix k i s x2 p s'
  assume "GetFileInternal k i s = Inr x2" "(p, s') = x2" "p \<noteq> []"
  then show "((k, i + 1, s'), (k, i, s)) \<in>
           measures [\<lambda>(k, i, s). if initialized_scan s then 0 else 1,
                     \<lambda>(k, i, s). length (scan_data_iterator s),
                     \<lambda>(k, i, s). length (resolved_files s) - i]"
    using GetFileInternal_decreases [of k i s p s'] by simp
qed

declare GetTotalFileCount_loop.simps [simp del]

definition GetTotalFileCount :: "Kernel \<Rightarrow> DeltaSnapshot \<Rightarrow> error + (nat \<times> DeltaSnapshot)" where
  "GetTotalFileCount k s =
     (case GetTotalFileCount_loop k (length (resolved_files s)) s of
        Inl e \<Rightarrow> Inl e
      | Inr s' \<Rightarrow> Inr (length (resolved_files s'), s'))"

definition GetAllFiles :: "Kernel \<Rightarrow> DeltaSnapshot \<Rightarrow> error + (string list \<times> DeltaSnapshot)" where
  "GetAllFiles k s =
     (case GetTotalFileCount_loop k (length (resolved_files s)) s of
        Inl e \<Rightarrow> Inl e
      | Inr s' \<Rightarrow> Inr (resolved_files s', s'))"

subsection \<open>\<open>GetCardinality\<close>, \<open>GetVersion\<close>, \<open>GetMetaData\<close>\<close>

text \<open>
  The loop of \<open>GetCardinality\<close> over the metadata: the running total, an \<open>idx_t\<close> that
  wraps around, and whether any file had a row count.
\<close>

definition GetCardinality_loop :: "DeltaFileMetaData list \<Rightarrow> 64 word \<times> bool" where
  "GetCardinality_loop ms =
     fold (\<lambda>metadatum (total_tuple_count, have_any_stats).
             if cardinality metadatum \<noteq> word_of_nat INVALID_INDEX
             then (total_tuple_count + cardinality metadatum, True)
             else (total_tuple_count, have_any_stats))
          ms (0, False)"

definition GetCardinality ::
  "Kernel \<Rightarrow> DeltaSnapshot \<Rightarrow> error + (NodeStatistics option \<times> DeltaSnapshot)" where
  "GetCardinality k s =
     (case GetTotalFileCount k s of
        Inl e \<Rightarrow> Inl e
      | Inr (total_file_count, s') \<Rightarrow>
          if total_file_count = 0
          then Inr (Some \<lparr>estimated_cardinality = 0, max_cardinality = 0\<rparr>, s')
          else
            (case GetCardinality_loop (metadata s') of
               (total_tuple_count, have_any_stats) \<Rightarrow>
                 if have_any_stats
                 then Inr (Some \<lparr>estimated_cardinality = total_tuple_count,
                                  max_cardinality = total_tuple_count\<rparr>, s')
                 else Inr (None, s')))"

definition GetVersion :: "DeltaSnapshot \<Rightarrow> nat option" where
  "GetVersion s = version s"

definition GetMetaData :: "DeltaSnapshot \<Rightarrow> nat \<Rightarrow> error + DeltaFileMetaData" where
  "GetMetaData s index = vector_at (metadata s) index"

subsection \<open>\<open>ComplexFilterPushdown\<close>\<close>

record ExtraOperatorInfo =
  file_filters :: string
  total_files :: "nat option"
  filtered_files :: "nat option"

record MultiFilePushdownInfo =
  column_indexes :: "nat list"
  extra_info :: ExtraOperatorInfo

text \<open>The rendering of the table filters of the fork, one line for each filter.\<close>

definition filters_info_of :: "DuckDB \<Rightarrow> string list \<Rightarrow> TableFilterSet \<Rightarrow> string" where
  "filters_info_of db nms fs =
     fst (fold (\<lambda>(column_index, flt) (filters_info, first_item).
                  if column_index < length nms
                  then ((if \<not> first_item then filters_info @ [CHR 0x0A] else filters_info)
                          @ FilterToString db flt (nms ! column_index), False)
                  else (filters_info, first_item))
               fs ([], True))"

text \<open>
  The fork of \<open>ComplexFilterPushdown\<close>: a new list for the same path, with the table
  filters and the names of this list, and with its snapshot pointer; the
  \<open>shared_ptr\<close> is copied, so both lists hold the same handle.
\<close>

definition new_filtered_list ::
  "DuckDB \<Rightarrow> TableFilterSet \<Rightarrow> DeltaSnapshot \<Rightarrow> error + DeltaSnapshot" where
  "new_filtered_list db filterstmp s =
     (case vector_at (paths s) 0 of
        Inl e \<Rightarrow> Inl e
      | Inr p0 \<Rightarrow>
     (case new_DeltaSnapshot db p0 of
        Inl e \<Rightarrow> Inl e
      | Inr filtered_list \<Rightarrow>
          Inr (filtered_list\<lparr>table_filters := filterstmp, names := names s,
                             snapshot := snapshot s\<rparr>)))"

text \<open>
  \<open>ComplexFilterPushdown\<close> returns the fork (\<open>None\<close> is the null pointer), and the model
  returns with it the list itself and the pushdown info, which the profiling branch
  changes. The filters reach the combiner last first.
\<close>

definition ComplexFilterPushdown ::
  "DuckDB \<Rightarrow> Kernel \<Rightarrow> MultiFilePushdownInfo \<Rightarrow> Expression list \<Rightarrow> DeltaSnapshot
     \<Rightarrow> error + (DeltaSnapshot option \<times> DeltaSnapshot \<times> MultiFilePushdownInfo)" where
  "ComplexFilterPushdown db k info filters s =
     (if filters = [] then Inr (None, s, info)
      else
        (case new_filtered_list db
                (GenerateTableScanFilters db (rev filters) (column_indexes info)) s of
           Inl e \<Rightarrow> Inl e
         | Inr filtered_list \<Rightarrow>
         if profiler_IsEnabled db then
           (case delta_scan_explain_files_filtered db of
              None \<Rightarrow>
                Inl (InternalException
                       ''Failed to find 'delta_scan_explain_files_filtered' option!'')
            | Some False \<Rightarrow> Inr (Some filtered_list, s, info)
            | Some True \<Rightarrow>
           (case GetTotalFileCount k s of
              Inl e \<Rightarrow> Inl e
            | Inr (old_total, s1) \<Rightarrow>
           (case GetTotalFileCount k filtered_list of
              Inl e \<Rightarrow> Inl e
            | Inr (new_total, filtered_list1) \<Rightarrow>
           (let x1 = (if old_total \<noteq> new_total
                      then (extra_info info)\<lparr>file_filters :=
                              filters_info_of db (names s) (table_filters filtered_list1)\<rparr>
                      else extra_info info)
            in
            case (case total_files x1 of
                    None \<Rightarrow> Inr (x1\<lparr>total_files := Some old_total\<rparr>)
                  | Some t \<Rightarrow>
                      if t < old_total
                      then Inl (InternalException ''total_files inconsistent!'')
                      else Inr x1) of
              Inl e \<Rightarrow> Inl e
            | Inr x2 \<Rightarrow>
                if (case filtered_files x2 of None \<Rightarrow> True | Some f \<Rightarrow> f \<ge> new_total)
                then Inr (Some filtered_list1, s1,
                          info\<lparr>extra_info := x2\<lparr>filtered_files := Some new_total\<rparr>\<rparr>)
                else Inl (InternalException ''filtered_files inconsistent!'')))))
         else Inr (Some filtered_list, s, info)))"

section \<open>The multi-file reader\<close>

text \<open>
  The custom options of the scan (\<open>delta_file_number\<close>, \<open>file_row_number\<close>) are boolean
  values in a case-insensitive map. The data of a reader for one file: the constant
  columns (\<open>column_id\<close> and value), the projected positions that are read from the file
  (\<open>column_mapping\<close>) with the local columns they are read from (\<open>column_ids\<close>), the casts,
  and the position of the file in the file list.
\<close>

record MultiFileReaderOptions =
  custom_options :: "bool case_insensitive_map_t"

record MultiFileReaderData =
  constant_map :: "(nat \<times> Value) list"
  column_mapping :: "nat list"
  column_ids :: "nat list"
  cast_map :: "nat \<rightharpoonup> LogicalType"
  empty_columns :: bool
  file_list_idx :: "nat option"

text \<open>
  Modelled from the spec: the declaration of \<open>DeltaMultiFileReaderGlobalState\<close> (the header
  \<open>functions/delta_scan.hpp\<close>) is not among the sources. It carries the types of the
  extra columns, the file list and the two indices of the synthetic columns, which are
  \<open>DConstants::INVALID_INDEX\<close> until \<open>SetColumnIdx\<close> sets them.
\<close>

record DeltaMultiFileReaderGlobalState =
  extra_columns :: "LogicalType list"
  file_list :: "DeltaSnapshot option"
  delta_file_number_idx :: nat
  file_row_number_idx :: nat

definition new_DeltaMultiFileReaderGlobalState ::
  "LogicalType list \<Rightarrow> DeltaSnapshot option \<Rightarrow> DeltaMultiFileReaderGlobalState" where
  "new_DeltaMultiFileReaderGlobalState extra fl =
     \<lparr>extra_columns = extra, file_list = fl, delta_file_number_idx = INVALID_INDEX,
      file_row_number_idx = INVALID_INDEX\<rparr>"

subsection \<open>\<open>InitializeGlobalState\<close>\<close>

definition SetColumnIdx ::
  "DeltaMultiFileReaderGlobalState \<Rightarrow> string \<Rightarrow> nat \<Rightarrow> error + DeltaMultiFileReaderGlobalState" where
  "SetColumnIdx gs column idx =
     (if column = ''file_row_number'' then Inr (gs\<lparr>file_row_number_idx := idx\<rparr>)
      else if column = ''delta_file_number'' then Inr (gs\<lparr>delta_file_number_idx := idx\<rparr>)
      else Inl (IOException ''Unknown column found as required by the DeltaMultiFileReader''))"

text \<open>The first loop: the map from the names of the projected columns to their positions.\<close>

fun selected_columns_loop ::
  "MultiFileReaderColumnDefinition list \<Rightarrow> nat \<Rightarrow> nat list \<Rightarrow> nat case_insensitive_map_t
     \<Rightarrow> error + nat case_insensitive_map_t" where
  "selected_columns_loop global_columns i [] selected_columns = Inr selected_columns"
| "selected_columns_loop global_columns i (global_id # ids) selected_columns =
     (if IsRowIdColumnId global_id
      then selected_columns_loop global_columns (i + 1) ids selected_columns
      else
        (case vector_at global_columns global_id of
           Inl e \<Rightarrow> Inl e
         | Inr col \<Rightarrow>
             selected_columns_loop global_columns (i + 1) ids
               (ci_insert selected_columns (name col) i)))"

text \<open>
  The required columns, in the order in which the loop over the unordered map
  \<open>columns_to_map\<close> meets them: the order of the two keys is the standard library's.
\<close>

definition columns_to_map ::
  "DuckDB \<Rightarrow> MultiFileReaderOptions \<Rightarrow> (string \<times> LogicalType) list" where
  "columns_to_map db file_options =
     (case ci_find (custom_options file_options) ''delta_file_number'' of
        Some True \<Rightarrow>
          if inserted_key_iterates_first db
          then [(''delta_file_number'', UBIGINT), (''file_row_number'', BIGINT)]
          else [(''file_row_number'', BIGINT), (''delta_file_number'', UBIGINT)]
      | _ \<Rightarrow> [(''file_row_number'', BIGINT)])"

text \<open>
  The second loop: every required column is mapped to its position in the projection,
  or to the next position after the \<open>n\<close> projected columns.
\<close>

fun mapped_columns_loop ::
  "nat case_insensitive_map_t \<Rightarrow> nat \<Rightarrow> (string \<times> LogicalType) list
     \<Rightarrow> (string \<times> nat) list \<times> LogicalType list \<times> nat
     \<Rightarrow> (string \<times> nat) list \<times> LogicalType list \<times> nat" where
  "mapped_columns_loop selected_columns n [] acc = acc"
| "mapped_columns_loop selected_columns n (required_column # rest)
       (mapped_columns, extra, col_offset) =
     (case ci_find selected_columns (fst required_column) of
        Some res \<Rightarrow>
          mapped_columns_loop selected_columns n rest
            (mapped_columns @ [(fst required_column, res)], extra, col_offset)
      | None \<Rightarrow>
          mapped_columns_loop selected_columns n rest
            (mapped_columns @ [(fst required_column, n + col_offset)],
             extra @ [snd required_column], col_offset + 1))"

fun SetColumnIdx_loop ::
  "DeltaMultiFileReaderGlobalState \<Rightarrow> (string \<times> nat) list
     \<Rightarrow> error + DeltaMultiFileReaderGlobalState" where
  "SetColumnIdx_loop res [] = Inr res"
| "SetColumnIdx_loop res (mapped_column # rest) =
     (case SetColumnIdx res (fst mapped_column) (snd mapped_column) of
        Inl e \<Rightarrow> Inl e
      | Inr res' \<Rightarrow> SetColumnIdx_loop res' rest)"

definition InitializeGlobalState ::
  "DuckDB \<Rightarrow> MultiFileReaderOptions \<Rightarrow> DeltaSnapshot
     \<Rightarrow> MultiFileReaderColumnDefinition list \<Rightarrow> nat list
     \<Rightarrow> error + DeltaMultiFileReaderGlobalState" where
  "InitializeGlobalState db file_options fl global_columns global_column_ids =
     (case selected_columns_loop global_columns 0 global_column_ids [] of
        Inl e \<Rightarrow> Inl e
      | Inr selected_columns \<Rightarrow>
          (case mapped_columns_loop selected_columns (length global_column_ids)
                  (columns_to_map db file_options) ([], [], 0) of
             (mapped_columns, extra, col_offset) \<Rightarrow>
               SetColumnIdx_loop (new_DeltaMultiFileReaderGlobalState extra (Some fl))
                 mapped_columns))"

subsection \<open>\<open>FinalizeBind\<close>\<close>

text \<open>
  The loop of \<open>FinalizeBind\<close> over the projected columns of a file with partition values:
  a column whose name is a key of the partition map becomes a constant, the raw string
  for a \<open>BLOB\<close> column and the string cast to the type of the column otherwise.
\<close>

fun FinalizeBind_loop ::
  "DuckDB \<Rightarrow> MultiFileReaderColumnDefinition list \<Rightarrow> string case_insensitive_map_t
     \<Rightarrow> nat \<Rightarrow> nat list \<Rightarrow> (nat \<times> Value) list \<Rightarrow> error + (nat \<times> Value) list" where
  "FinalizeBind_loop db global_columns pm i [] cm = Inr cm"
| "FinalizeBind_loop db global_columns pm i (col_id # ids) cm =
     (if IsRowIdColumnId col_id then FinalizeBind_loop db global_columns pm (i + 1) ids cm
      else
        (case vector_at global_columns col_id of
           Inl e \<Rightarrow> Inl e
         | Inr col \<Rightarrow>
        (case ci_find pm (name col) of
           None \<Rightarrow> FinalizeBind_loop db global_columns pm (i + 1) ids cm
         | Some partition_val \<Rightarrow>
             if type col = BLOB
             then FinalizeBind_loop db global_columns pm (i + 1) ids
                    (cm @ [(i, Value_BLOB_RAW partition_val)])
             else
               (case DefaultCastAs db partition_val (type col) of
                  Inl e \<Rightarrow> Inl e
                | Inr maybe_value \<Rightarrow>
                    FinalizeBind_loop db global_columns pm (i + 1) ids
                      (cm @ [(i, maybe_value)])))))"

text \<open>
  \<open>FinalizeBind\<close> after the call of the base class (\<open>MultiFileReader::FinalizeBind\<close> is the
  host engine's; \<open>reader_data\<close> is the data it leaves).
\<close>

definition FinalizeBind ::
  "DuckDB \<Rightarrow> MultiFileReaderOptions \<Rightarrow> MultiFileReaderColumnDefinition list \<Rightarrow> nat list
     \<Rightarrow> MultiFileReaderData \<Rightarrow> DeltaMultiFileReaderGlobalState option
     \<Rightarrow> error + MultiFileReaderData" where
  "FinalizeBind db file_options global_columns global_column_ids reader_data gstate =
     (case (case ci_find (custom_options file_options) ''delta_file_number'' of
              Some True \<Rightarrow>
                (case gstate of
                   None \<Rightarrow> Inl (InternalException ''optional_ptr is not set'')
                 | Some delta_global_state \<Rightarrow>
                     Inr (reader_data\<lparr>constant_map := constant_map reader_data
                            @ [(delta_file_number_idx delta_global_state, Value_UBIGINT 0)]\<rparr>))
            | _ \<Rightarrow> Inr reader_data) of
        Inl e \<Rightarrow> Inl e
      | Inr rd \<Rightarrow>
     (case gstate of
        None \<Rightarrow> Inl (InternalException ''optional_ptr is not set'')
      | Some gs \<Rightarrow>
     (case file_list gs of
        None \<Rightarrow> Inl (Undefined ''file_list is null'')
      | Some snapshot_list \<Rightarrow>
     (case file_list_idx rd of
        None \<Rightarrow> Inl (InternalException ''optional_idx is not set'')
      | Some idx \<Rightarrow>
     (case GetMetaData snapshot_list idx of
        Inl e \<Rightarrow> Inl e
      | Inr file_metadata \<Rightarrow>
          if partition_map file_metadata \<noteq> [] then
            (case FinalizeBind_loop db global_columns (partition_map file_metadata) 0
                    global_column_ids (constant_map rd) of
               Inl e \<Rightarrow> Inl e
             | Inr cm \<Rightarrow> Inr (rd\<lparr>constant_map := cm\<rparr>))
          else Inr rd)))))"

subsection \<open>The column mapping of a file\<close>

text \<open>The map from the names of the columns of the file to their positions.\<close>

definition local_name_map ::
  "MultiFileReaderColumnDefinition list \<Rightarrow> nat case_insensitive_map_t" where
  "local_name_map local_columns =
     fold (\<lambda>col_idx name_map. ci_assign name_map (name (local_columns ! col_idx)) col_idx)
          [0..<length local_columns] []"

text \<open>
  The loop of \<open>CustomMulfiFileNameMapping\<close> over the projected columns: a constant column
  is skipped, a column that the file does not have becomes a NULL constant of its
  global type, and a column of the file is read, with a cast when the types differ.
\<close>

fun CustomMulfiFileNameMapping_loop ::
  "nat case_insensitive_map_t \<Rightarrow> MultiFileReaderColumnDefinition list
     \<Rightarrow> MultiFileReaderColumnDefinition list \<Rightarrow> nat \<Rightarrow> nat list \<Rightarrow> MultiFileReaderData
     \<Rightarrow> error + MultiFileReaderData" where
  "CustomMulfiFileNameMapping_loop name_map local_columns global_columns i [] rd = Inr rd"
| "CustomMulfiFileNameMapping_loop name_map local_columns global_columns i (global_id # ids) rd =
     (if list_ex (\<lambda>entry. fst entry = i) (constant_map rd)
      then CustomMulfiFileNameMapping_loop name_map local_columns global_columns (i + 1) ids rd
      else if global_id \<ge> length global_columns
      then Inl (InternalException
                  ''MultiFileReader::CreatePositionalMapping - global_id is out of range in global_types for this file'')
      else
        (case ci_find name_map (name (global_columns ! global_id)) of
           None \<Rightarrow>
             CustomMulfiFileNameMapping_loop name_map local_columns global_columns (i + 1) ids
               (rd\<lparr>constant_map := constant_map rd
                      @ [(i, Value_NULL (type (global_columns ! global_id)))]\<rparr>)
         | Some local_id \<Rightarrow>
             (case vector_at local_columns local_id of
                Inl e \<Rightarrow> Inl e
              | Inr local_col \<Rightarrow>
                  (let global_type = type (global_columns ! global_id);
                       rd1 = (if global_type \<noteq> type local_col
                              then rd\<lparr>cast_map := (cast_map rd)(local_id \<mapsto> global_type)\<rparr>
                              else rd)
                   in CustomMulfiFileNameMapping_loop name_map local_columns global_columns
                        (i + 1) ids
                        (rd1\<lparr>column_mapping := column_mapping rd1 @ [i],
                             column_ids := column_ids rd1 @ [local_id]\<rparr>)))))"

definition CustomMulfiFileNameMapping ::
  "MultiFileReaderColumnDefinition list \<Rightarrow> MultiFileReaderColumnDefinition list \<Rightarrow> nat list
     \<Rightarrow> MultiFileReaderData \<Rightarrow> error + MultiFileReaderData" where
  "CustomMulfiFileNameMapping local_columns global_columns global_column_ids reader_data =
     (case CustomMulfiFileNameMapping_loop (local_name_map local_columns) local_columns
             global_columns 0 global_column_ids reader_data of
        Inl e \<Rightarrow> Inl e
      | Inr rd \<Rightarrow> Inr (rd\<lparr>empty_columns := (column_ids rd = [])\<rparr>))"

text \<open>
  \<open>CreateColumnMapping\<close>: the name mapping, and then the column \<open>file_row_number\<close> of the
  file when the projection does not have it.
\<close>

definition CreateColumnMapping ::
  "MultiFileReaderColumnDefinition list \<Rightarrow> MultiFileReaderColumnDefinition list \<Rightarrow> nat list
     \<Rightarrow> MultiFileReaderData \<Rightarrow> DeltaMultiFileReaderGlobalState option
     \<Rightarrow> error + MultiFileReaderData" where
  "CreateColumnMapping local_columns global_columns global_column_ids reader_data gstate =
     (case CustomMulfiFileNameMapping local_columns global_columns global_column_ids
             reader_data of
        Inl e \<Rightarrow> Inl e
      | Inr rd \<Rightarrow>
     (case gstate of
        None \<Rightarrow> Inl (InternalException ''optional_ptr is not set'')
      | Some delta_global_state \<Rightarrow>
     (case (if file_row_number_idx delta_global_state \<ge> length global_column_ids then
              (case ci_find (local_name_map local_columns) ''file_row_number'' of
                 None \<Rightarrow> Inl (IOException ''Failed to find the file_row_number column'')
               | Some entry \<Rightarrow>
                   Inr (rd\<lparr>column_ids := column_ids rd @ [entry],
                          column_mapping := column_mapping rd
                            @ [file_row_number_idx delta_global_state]\<rparr>))
            else Inr rd) of
        Inl e \<Rightarrow> Inl e
      | Inr rd2 \<Rightarrow> Inr (rd2\<lparr>empty_columns := (column_ids rd2 = [])\<rparr>))))"

section \<open>The invariant of the file list\<close>

text \<open>
  The list of resolved files and the list of metadata go together: they have the same
  length, and the entry of the file at ordinal \<open>i\<close> has the file number \<open>i\<close> and the
  version of the list. The version is set when the scan starts.
\<close>

definition metadata_consistent :: "DeltaSnapshot \<Rightarrow> bool" where
  "metadata_consistent s =
     (length (resolved_files s) = length (metadata s) \<and>
      (\<forall>i<length (metadata s).
         file_number (metadata s ! i) = i \<and>
         version s = Some (delta_snapshot_version (metadata s ! i))))"

definition DeltaSnapshot_inv :: "DeltaSnapshot \<Rightarrow> bool" where
  "DeltaSnapshot_inv s = (metadata_consistent s \<and> (\<not> initialized_scan s \<longrightarrow> version s = None))"

text \<open>
  The states of a file list that the operations of the host engine and the visitor
  callback of the log-replay engine can produce, from the construction of a list or of
  a fork.
\<close>

inductive reachable :: "DuckDB \<Rightarrow> Kernel \<Rightarrow> DeltaSnapshot \<Rightarrow> bool" for db :: DuckDB and k :: Kernel where
  construct: "new_DeltaSnapshot db raw_path = Inr s \<Longrightarrow> reachable db k s"
| bind: "reachable db k s \<Longrightarrow> Bind k return_types nms s = Inr (r, s') \<Longrightarrow> reachable db k s'"
| callback: "reachable db k s \<Longrightarrow> VisitCallback s f = Inr s' \<Longrightarrow> reachable db k s'"
| get_file: "reachable db k s \<Longrightarrow> GetFile k i s = Inr (p, s') \<Longrightarrow> reachable db k s'"
| get_all_files: "reachable db k s \<Longrightarrow> GetAllFiles k s = Inr (fs, s') \<Longrightarrow> reachable db k s'"
| get_total_file_count:
    "reachable db k s \<Longrightarrow> GetTotalFileCount k s = Inr (n, s') \<Longrightarrow> reachable db k s'"
| get_cardinality:
    "reachable db k s \<Longrightarrow> GetCardinality k s = Inr (st, s') \<Longrightarrow> reachable db k s'"
| pushdown:
    "reachable db k s \<Longrightarrow> ComplexFilterPushdown db k info filters s = Inr (r, s', info')
       \<Longrightarrow> reachable db k s'"
| pushdown_fork:
    "reachable db k s \<Longrightarrow> ComplexFilterPushdown db k info filters s = Inr (Some fork, s', info')
       \<Longrightarrow> reachable db k fork"

section \<open>The row-count estimates of the files\<close>

text \<open>
  The usable row-count estimates of a list of metadata: those that are not
  \<open>DConstants::INVALID_INDEX\<close>.
\<close>

definition row_count_estimates :: "DeltaFileMetaData list \<Rightarrow> 64 word list" where
  "row_count_estimates ms =
     map cardinality (filter (\<lambda>m. cardinality m \<noteq> word_of_nat INVALID_INDEX) ms)"

section \<open>The positions that are read from a file\<close>

text \<open>
  The projected positions, counted from \<open>i\<close>, that the name mapping reads from the file:
  those that are not constant and whose column the file has.
\<close>

definition read_positions ::
  "nat case_insensitive_map_t \<Rightarrow> MultiFileReaderColumnDefinition list \<Rightarrow> nat \<Rightarrow> nat list
     \<Rightarrow> MultiFileReaderData \<Rightarrow> nat set" where
  "read_positions nm gc i ids rd =
     {i + j | j. j < length ids \<and> \<not> list_ex (\<lambda>e. fst e = i + j) (constant_map rd)
                 \<and> ci_find nm (name (gc ! (ids ! j))) \<noteq> None}"

section \<open>The constant of a partition column\<close>

text \<open>
  What the per-file bind owes a projected column \<open>col\<close> at position \<open>i\<close> whose partition
  value is \<open>partition_val\<close>: a constant at \<open>i\<close>, the raw bytes of the string for a \<open>BLOB\<close>
  column and the string cast to the type of the column otherwise.
\<close>

definition partition_constant ::
  "DuckDB \<Rightarrow> MultiFileReaderColumnDefinition \<Rightarrow> string \<Rightarrow> nat \<Rightarrow> (nat \<times> Value) list \<Rightarrow> bool" where
  "partition_constant db col partition_val i cm =
     ((type col = BLOB \<longrightarrow> (i, Value_BLOB_RAW partition_val) \<in> set cm) \<and>
      (type col \<noteq> BLOB \<longrightarrow>
         (\<exists>v. DefaultCastAs db partition_val (type col) = Inr v \<and> (i, v) \<in> set cm)))"

text \<open>
  The reader data after the first step of \<open>FinalizeBind\<close>, which adds the constant of the
  option \<open>delta_file_number\<close>.
\<close>

definition with_file_number ::
  "MultiFileReaderOptions \<Rightarrow> DeltaMultiFileReaderGlobalState \<Rightarrow> MultiFileReaderData
     \<Rightarrow> MultiFileReaderData" where
  "with_file_number file_options gs reader_data =
     (if ci_find (custom_options file_options) ''delta_file_number'' = Some True
      then reader_data\<lparr>constant_map := constant_map reader_data
             @ [(delta_file_number_idx gs, Value_UBIGINT 0)]\<rparr>
      else reader_data)"

section \<open>The position of a column in the projection\<close>

text \<open>
  The first position of the projection whose column is not the row id and has the name
  \<open>nm\<close>, compared without regard to case; and whether the option \<open>delta_file_number\<close> is
  set.
\<close>

definition projected_index ::
  "MultiFileReaderColumnDefinition list \<Rightarrow> nat list \<Rightarrow> string \<Rightarrow> nat option" where
  "projected_index global_columns global_column_ids nm =
     find (\<lambda>i. \<not> IsRowIdColumnId (global_column_ids ! i) \<and>
                CIEquals (name (global_columns ! (global_column_ids ! i))) nm)
          [0..<length global_column_ids]"

definition delta_file_number_enabled :: "MultiFileReaderOptions \<Rightarrow> bool" where
  "delta_file_number_enabled file_options =
     (ci_find (custom_options file_options) ''delta_file_number'' = Some True)"

section \<open>The resolved path of a file\<close>







section \<open>Concrete inputs\<close>

text \<open>
  A table at \<open>file:///data/tab/\<close> with three files in two partitions, which the engine
  delivers in three batches (the second is empty); the second file has a deletion
  bitmap of length four that marks the ordinal 2 as deleted. A batch of five rows with
  the ordinals 1, 2, 7, 0 and 2.
\<close>

definition ex_file :: "string \<Rightarrow> 64 word option \<Rightarrow> KernelBoolSlice \<Rightarrow> (string \<times> string) list \<Rightarrow> ScanFile" where
  "ex_file p st sv pv =
     \<lparr>path = p, file_size = 1024, stats = st, dv_info = Inr sv, partition_values = pv\<rparr>"

definition ex_no_dv :: KernelBoolSlice where
  "ex_no_dv = \<lparr>ptr = None, len = 0\<rparr>"

definition ex_dv :: KernelBoolSlice where
  "ex_dv = \<lparr>ptr = Some [True, True, False, True], len = 4\<rparr>"

definition ex_batches :: KernelScanDataIterator where
  "ex_batches =
     [Inr [ex_file ''region=us/part+1%2Da.parquet'' (Some 10) ex_no_dv [(''region'', ''us'')],
           ex_file ''region=eu/part-2.parquet'' None ex_dv [(''region'', ''eu'')]],
      Inr [],
      Inr [ex_file ''region=eu/part-3.parquet'' (Some 5) ex_no_dv [(''region'', ''eu'')]]]"

definition ex_kernel :: Kernel where
  "ex_kernel =
     \<lparr>builder_build = (\<lambda>p. Inr 1),
      ffi_snapshot = (\<lambda>p e. Inr 7),
      ffi_version = (\<lambda>h. 3),
      VisitSnapshotSchema = (\<lambda>h. [(''id'', BIGINT), (''Region'', VARCHAR)]),
      ffi_scan = (\<lambda>h e ns fs. Inr 11),
      ffi_get_global_scan_state = (\<lambda>sc. 13),
      ffi_kernel_scan_data_init = (\<lambda>e sc. Inr ex_batches)\<rparr>"

definition ex_db :: DuckDB where
  "ex_db =
     \<lparr>GenerateTableScanFilters = (\<lambda>fs cols. map (\<lambda>f. (0, f)) fs),
      FilterToString = (\<lambda>f col. col @ ''=?''),
      DefaultCastAs = (\<lambda>str ty. if ty = VARCHAR then Inr (Value_VARCHAR str)
                                  else Inr (Value_OTHER ty str)),
      GetWorkingDirectory = ''/home/user'',
      profiler_IsEnabled = False,
      delta_scan_explain_files_filtered = Some True,
      inserted_key_iterates_first = True\<rparr>"

definition ex_list :: DeltaSnapshot where
  "ex_list =
     \<lparr>paths = [''file:///data/tab/''], version = None, snapshot = None, extern_engine = None,
      scan = None, global_state = None, scan_data_iterator = [], names = [],
      types = [], have_bound = False, metadata = [], initialized_snapshot = False,
      initialized_scan = False, files_exhausted = False, resolved_files = [],
      table_filters = []\<rparr>"

definition ex_bitmap :: "bool list" where
  "ex_bitmap = [True, True, False, True]"

definition ex_col :: UnifiedVectorFormat where
  "ex_col = \<lparr>get_index = (\<lambda>i. i), row_ids = (\<lambda>i. [1, 2, 7, 0, 2] ! i)\<rparr>"

definition ex_list_end :: DeltaSnapshot where
  "ex_list_end = snd (projr (GetFile ex_kernel 3 ex_list))"

text \<open>
  The same table when the engine has no file for it, the list once the snapshot is open,
  and a fork of it under one filter.
\<close>

definition ex_kernel_empty :: Kernel where
  "ex_kernel_empty = ex_kernel\<lparr>ffi_kernel_scan_data_init := (\<lambda>e sc. Inr [])\<rparr>"

definition ex_list_empty_end :: DeltaSnapshot where
  "ex_list_empty_end =
     ex_list\<lparr>version := Some 3, snapshot := Some 7, extern_engine := Some 1, scan := Some 11,
             global_state := Some 13, initialized_snapshot := True, initialized_scan := True,
             files_exhausted := True\<rparr>"

definition ex_list_full :: DeltaSnapshot where
  "ex_list_full = snd (projr (GetCardinality ex_kernel ex_list))"

definition ex_list_open :: DeltaSnapshot where
  "ex_list_open =
     ex_list\<lparr>snapshot := Some 7, extern_engine := Some 1, initialized_snapshot := True\<rparr>"

definition ex_fork :: DeltaSnapshot where
  "ex_fork = ex_list\<lparr>snapshot := Some 7, table_filters := [(0, 5)]\<rparr>"

definition ex_info :: MultiFilePushdownInfo where
  "ex_info =
     \<lparr>column_indexes = [0, 1],
      extra_info = \<lparr>file_filters = [], total_files = None, filtered_files = None\<rparr>\<rparr>"

text \<open>
  A global schema of three columns and a file that has the first of them, with another
  type, and its row numbers.
\<close>

definition ex_global_columns :: "MultiFileReaderColumnDefinition list" where
  "ex_global_columns =
     [\<lparr>name = ''id'', type = BIGINT\<rparr>, \<lparr>name = ''region'', type = VARCHAR\<rparr>,
      \<lparr>name = ''extra'', type = DOUBLE\<rparr>]"

definition ex_local_columns :: "MultiFileReaderColumnDefinition list" where
  "ex_local_columns =
     [\<lparr>name = ''ID'', type = INTEGER\<rparr>, \<lparr>name = ''file_row_number'', type = BIGINT\<rparr>]"

definition ex_reader_data :: MultiFileReaderData where
  "ex_reader_data =
     \<lparr>constant_map = [], column_mapping = [], column_ids = [], cast_map = Map.empty,
      empty_columns = False, file_list_idx = Some 0\<rparr>"

text \<open>
  A list with one file of the partition \<open>Region = us\<close>, and the state, the options and the
  reader data of a scan over it.
\<close>

definition ex_list_part :: DeltaSnapshot where
  "ex_list_part =
     ex_list\<lparr>metadata := [new_DeltaFileMetaData\<lparr>partition_map := [(''Region'', ''us'')]\<rparr>],
             resolved_files := [''/data/tab/region=us/a.parquet'']\<rparr>"

definition ex_gstate :: DeltaMultiFileReaderGlobalState where
  "ex_gstate =
     \<lparr>extra_columns = [BIGINT], file_list = Some ex_list_part,
      delta_file_number_idx = INVALID_INDEX, file_row_number_idx = 2\<rparr>"

definition ex_options :: MultiFileReaderOptions where
  "ex_options = \<lparr>custom_options = []\<rparr>"

definition ex_reader_bound :: MultiFileReaderData where
  "ex_reader_bound = ex_reader_data\<lparr>constant_map := [(0, Value_VARCHAR ''us'')]\<rparr>"

definition ex_reader_mapped :: MultiFileReaderData where
  "ex_reader_mapped =
     projr (CreateColumnMapping ex_local_columns ex_global_columns [1, 0] ex_reader_bound
              (Some ex_gstate))"

text \<open>
  The options with \<open>delta_file_number\<close>, a global schema that has the row numbers, and
  the global state of a scan that projects the row numbers and the first column.
\<close>

definition ex_options_file_number :: MultiFileReaderOptions where
  "ex_options_file_number = \<lparr>custom_options = [(''delta_file_number'', True)]\<rparr>"

definition ex_global_columns_row_number :: "MultiFileReaderColumnDefinition list" where
  "ex_global_columns_row_number =
     ex_global_columns @ [\<lparr>name = ''File_Row_Number'', type = BIGINT\<rparr>]"

definition ex_gstate_indices :: DeltaMultiFileReaderGlobalState where
  "ex_gstate_indices =
     \<lparr>extra_columns = [UBIGINT], file_list = Some ex_list, delta_file_number_idx = 2,
      file_row_number_idx = 0\<rparr>"



section \<open>Properties of the selection vector\<close>

lemma sint_nonneg_unat: "0 \<le> sint (w::'a::len word) \<Longrightarrow> nat (sint w) = unat w"
proof -
  assume nn: "0 \<le> sint w"
  have lt: "sint w < 2 ^ LENGTH('a)"
    by (rule less_trans [OF sint_lt]) simp
  have "uint w = take_bit LENGTH('a) (sint w)" by (rule uint_sint)
  also have "\<dots> = sint w" using nn lt by (simp add: take_bit_int_eq_self)
  finally have "nat (uint w) = nat (sint w)" by simp
  then show ?thesis by simp
qed

lemma keep_decision:
  assumes "ptr dv = Some bs" "unat (len dv) = length bs" "0 \<le> row_ordinal data i"
  shows "(if len dv \<le> row_ids data (get_index data i) then Some True
          else dv_read dv (row_ids data (get_index data i))) = Some (keeps_row bs data i)"
proof -
  let ?r = "row_ids data (get_index data i)"
  have nn: "0 \<le> sint ?r" using assms(3) by (simp add: row_ordinal_def)
  have u: "nat (sint ?r) = unat ?r" using nn by (rule sint_nonneg_unat)
  have le: "len dv \<le> ?r \<longleftrightarrow> length bs \<le> unat ?r"
    using assms(2) by (simp add: word_le_nat_alt)
  have ord: "int (length bs) \<le> row_ordinal data i \<longleftrightarrow> length bs \<le> unat ?r"
    using nn u by (simp add: row_ordinal_def) linarith
  show ?thesis
    using assms(1) nn u le ord
    by (auto simp: dv_read_def keeps_row_def row_ordinal_def)
qed

lemma DuckSVFromDeltaSV_loop_inv:
  assumes wf: "ptr dv = Some bs" "unat (len dv) = length bs"
    and ords: "\<forall>j<count. 0 \<le> row_ordinal data j"
    and len: "length result = count"
    and cs: "cs = length (kept_rows bs data i)"
    and pre: "take cs result = map word_of_nat (kept_rows bs data i)"
    and le: "i \<le> count"
  shows "\<exists>sv. DuckSVFromDeltaSV_loop dv data count i result cs
               = Some (sv, length (kept_rows bs data count))
             \<and> length sv = count
             \<and> take (length (kept_rows bs data count)) sv
                 = map word_of_nat (kept_rows bs data count)"
  using len cs pre le
proof (induction "count - i" arbitrary: i result cs)
  case 0
  then have "i = count" by simp
  with 0 show ?case by (simp add: DuckSVFromDeltaSV_loop.simps)
next
  case (Suc n)
  then have lt: "i < count" by simp
  have dec: "(if len dv \<le> row_ids data (get_index data i) then Some True
          else dv_read dv (row_ids data (get_index data i))) = Some (keeps_row bs data i)"
    using wf ords lt by (simp add: keep_decision)
  have bound: "length (kept_rows bs data i) \<le> i"
    unfolding kept_rows_def by (rule order_trans [OF length_filter_le]) simp
  show ?case
  proof (cases "keeps_row bs data i")
    case True
    let ?res = "result[cs := word_of_nat i]"
    have k: "kept_rows bs data (Suc i) = kept_rows bs data i @ [i]"
      using True by (simp add: kept_rows_def)
    have csl: "cs < length result" using Suc.prems bound lt by simp
    have t: "take (Suc cs) ?res = map word_of_nat (kept_rows bs data (Suc i))"
      using csl Suc.prems(2,3) k by (simp add: take_Suc_conv_app_nth)
    have "\<exists>sv. DuckSVFromDeltaSV_loop dv data count (Suc i) ?res (Suc cs)
               = Some (sv, length (kept_rows bs data count))
             \<and> length sv = count
             \<and> take (length (kept_rows bs data count)) sv
                 = map word_of_nat (kept_rows bs data count)"
      using Suc.hyps(2) Suc.prems lt k t by (intro Suc.hyps(1)) auto
    then show ?thesis
      using lt dec True csl by (subst DuckSVFromDeltaSV_loop.simps) simp
  next
    case False
    have k: "kept_rows bs data (Suc i) = kept_rows bs data i"
      using False by (simp add: kept_rows_def)
    have "\<exists>sv. DuckSVFromDeltaSV_loop dv data count (Suc i) result cs
               = Some (sv, length (kept_rows bs data count))
             \<and> length sv = count
             \<and> take (length (kept_rows bs data count)) sv
                 = map word_of_nat (kept_rows bs data count)"
      using Suc.hyps(2) Suc.prems lt k by (intro Suc.hyps(1)) auto
    then show ?thesis
      using lt dec False by (subst DuckSVFromDeltaSV_loop.simps) simp
  qed
qed

lemma unat_sel_t: "n < 2 ^ 32 \<Longrightarrow> unat (word_of_nat n :: sel_t) = n"
  by (simp add: unat_of_nat)

text \<open>
  Claim C1. For a deletion bitmap of length \<open>L\<close> (the slice points to the \<open>L\<close> entries of
  the bitmap) and a batch of \<open>count\<close> rows whose ordinals, read from the
  \<open>file_row_number\<close> column, are not negative, \<open>DuckSVFromDeltaSV\<close> returns a selection
  vector whose first \<open>select_count\<close> entries are the positions of exactly the rows whose
  ordinal is at least \<open>L\<close> or whose bitmap entry is true, in the order of the batch, and
  \<open>select_count\<close> is the number of these rows. The positions are 32-bit entries, so the
  batch has at most \<open>2 ^ 32\<close> rows (a batch of the host engine has at most 2048).
\<close>

theorem DuckSVFromDeltaSV_correct:
  assumes "ptr dv = Some bitmap" and "unat (len dv) = length bitmap"
    and "\<forall>i<count. 0 \<le> row_ordinal data i"
    and "count \<le> 2 ^ 32"
  shows "\<exists>sv. DuckSVFromDeltaSV dv data count = Some (sv, length (kept_rows bitmap data count))
            \<and> map unat (take (length (kept_rows bitmap data count)) sv)
                = kept_rows bitmap data count"
proof -
  obtain sv where sv: "DuckSVFromDeltaSV_loop dv data count 0 (replicate count 0) 0
               = Some (sv, length (kept_rows bitmap data count))"
      "take (length (kept_rows bitmap data count)) sv
                 = map word_of_nat (kept_rows bitmap data count)"
    using DuckSVFromDeltaSV_loop_inv [OF assms(1,2,3), of "replicate count 0" 0 0]
    by (auto simp: kept_rows_def)
  have "\<forall>n \<in> set (kept_rows bitmap data count). n < 2 ^ 32"
    using assms(4) by (auto simp: kept_rows_def)
  then have "map unat (map word_of_nat (kept_rows bitmap data count) :: sel_t list)
              = kept_rows bitmap data count"
    by (simp add: map_idI unat_sel_t)
  with sv show ?thesis by (auto simp: DuckSVFromDeltaSV_def)
qed

theorem DuckSVFromDeltaSV_correct_witness:
  "kept_rows ex_bitmap ex_col 5 = [0, 2, 3] \<and>
   (\<exists>sv. DuckSVFromDeltaSV ex_dv ex_col 5 = Some (sv, 3) \<and> map unat (take 3 sv) = [0, 2, 3])"
proof -
  have h1: "ptr ex_dv = Some ex_bitmap" by (simp add: ex_dv_def ex_bitmap_def)
  have h2: "unat (len ex_dv) = length ex_bitmap" by (simp add: ex_dv_def ex_bitmap_def)
  have h3: "\<forall>i<5. 0 \<le> row_ordinal ex_col i"
    by (simp add: row_ordinal_def ex_col_def less_Suc_eq eval_nat_numeral)
  have h4: "(5::nat) \<le> 2 ^ 32" by simp
  have k: "kept_rows ex_bitmap ex_col 5 = [0, 2, 3]" by code_simp
  from DuckSVFromDeltaSV_correct [OF h1 h2 h3 h4]
  have "\<exists>sv. DuckSVFromDeltaSV ex_dv ex_col 5 = Some (sv, length [0::nat, 2, 3]) \<and>
          map unat (take (length [0::nat, 2, 3]) sv) = [0, 2, 3]"
    unfolding k .
  with k show ?thesis by (simp add: numeral_3_eq_3)
qed


section \<open>Properties of the snapshot file list\<close>

text \<open>Rules that evaluate the model on concrete inputs.\<close>

lemmas url_eval = url_decode_def url_decode_loop.simps sscanf_x_def c_str_def isspace_def
  unsigned_hex_def hex_val_def char_of_def bit_Suc_0_iff

lemmas ex_defs = ex_file_def ex_no_dv_def ex_dv_def ex_batches_def ex_kernel_def ex_db_def
  ex_list_def

lemmas list_eval = GetFile_def GetFileInternal_def GetFileInternal_loop.simps
  InitializeSnapshot_def InitializeScan_def VisitCallback_def GetPath_def vector_at_def
  RTrim_def ToDuckDBPath_def StartsWith_def new_DeltaFileMetaData_def INVALID_INDEX_def
  Let_def CIEquals_def Lower_def CharacterToLower_def

lemma result_from_value:
  "map_sum id fst r = Inr a \<Longrightarrow> r = Inr (a, snd (projr r))"
  by (cases r) auto

lemma VisitCallback_frame:
  "VisitCallback ctx f = Inr ctx' \<Longrightarrow>
     ctx' = ctx\<lparr>metadata := metadata ctx', resolved_files := resolved_files ctx'\<rparr>"
  by (auto simp: VisitCallback_def Let_def split: sum.splits option.splits)

lemma VisitData_frame:
  "VisitData ctx fs = Inr ctx' \<Longrightarrow>
     ctx' = ctx\<lparr>metadata := metadata ctx', resolved_files := resolved_files ctx'\<rparr>"
proof (induction fs arbitrary: ctx)
  case Nil
  then show ?case by simp
next
  case (Cons f fs)
  then obtain c1 where c1: "VisitCallback ctx f = Inr c1" and r: "VisitData c1 fs = Inr ctx'"
    by (auto split: sum.splits)
  from VisitCallback_frame [OF c1] obtain a b where "c1 = ctx\<lparr>metadata := a, resolved_files := b\<rparr>"
    by blast
  with Cons.IH [OF r] show ?case by simp
qed

lemma GetFileInternal_loop_frame:
  "GetFileInternal_loop i s = Inr (p, s') \<Longrightarrow>
     s' = s\<lparr>scan_data_iterator := scan_data_iterator s', metadata := metadata s',
            files_exhausted := files_exhausted s', resolved_files := resolved_files s'\<rparr>"
proof (induction i s rule: GetFileInternal_loop.induct)
  case (1 i s)
  show ?case
  proof (cases "length (resolved_files s) \<le> i")
    case False
    with "1.prems" have "s' = s" by (simp add: GetFileInternal_loop.simps)
    then show ?thesis by simp
  next
    case True
    show ?thesis
    proof (cases "scan_data_iterator s")
      case Nil
      with True "1.prems" have "s' = s\<lparr>files_exhausted := True\<rparr>"
        by (auto simp: GetFileInternal_loop.simps)
      then show ?thesis by simp
    next
      case (Cons r rest)
      from "1.prems" True Cons obtain batch s1 where r: "r = Inr batch"
        and v: "VisitData (s\<lparr>scan_data_iterator := rest\<rparr>) batch = Inr s1"
        and l: "GetFileInternal_loop i s1 = Inr (p, s')"
        by (rule GetFileInternal_loop_step)
      from VisitData_frame [OF v] obtain a b where
        "s1 = s\<lparr>scan_data_iterator := rest, metadata := a, resolved_files := b\<rparr>"
        by blast
      with "1.IH" [OF True Cons r v l] show ?thesis by simp
    qed
  qed
qed

lemma GetFileInternal_loop_result:
  "GetFileInternal_loop i s = Inr (p, s') \<Longrightarrow>
     (i < length (resolved_files s') \<and> p = resolved_files s' ! i) \<or>
     (p = [] \<and> files_exhausted s' \<and> length (resolved_files s') \<le> i)"
proof (induction i s rule: GetFileInternal_loop.induct)
  case (1 i s)
  show ?case
  proof (cases "length (resolved_files s) \<le> i")
    case False
    with "1.prems" show ?thesis by (auto simp: GetFileInternal_loop.simps)
  next
    case True
    show ?thesis
    proof (cases "scan_data_iterator s")
      case Nil
      with True "1.prems" show ?thesis by (auto simp: GetFileInternal_loop.simps)
    next
      case (Cons r rest)
      from "1.prems" True Cons obtain batch s1 where r: "r = Inr batch"
        and v: "VisitData (s\<lparr>scan_data_iterator := rest\<rparr>) batch = Inr s1"
        and l: "GetFileInternal_loop i s1 = Inr (p, s')"
        by (rule GetFileInternal_loop_step)
      from "1.IH" [OF True Cons r v l] show ?thesis .
    qed
  qed
qed

lemma InitializeSnapshot_initialized:
  "InitializeSnapshot k s = Inr s' \<Longrightarrow> initialized_snapshot s'"
  by (auto simp: InitializeSnapshot_def split: sum.splits option.splits)

lemma InitializeScan_initialized_snapshot:
  "InitializeScan k s = Inr s' \<Longrightarrow> initialized_snapshot s' = initialized_snapshot s"
  by (auto simp: InitializeScan_def split: sum.splits option.splits)

lemma GetFileInternal_cases:
  assumes "GetFileInternal k i s = Inr (p, s')"
  obtains s1 s2 where
    "(if \<not> initialized_snapshot s then InitializeSnapshot k s else Inr s) = Inr s1"
    "(if \<not> initialized_scan s1 then InitializeScan k s1 else Inr s1) = Inr s2"
    "(if i < length (resolved_files s2) then Inr (resolved_files s2 ! i, s2)
      else if files_exhausted s2 then Inr ([], s2)
      else GetFileInternal_loop i s2) = Inr (p, s')"
  using assms by (auto simp: GetFileInternal_def split: sum.splits)

lemma GetFileInternal_initialized:
  assumes "GetFileInternal k i s = Inr (p, s')"
  shows "initialized_snapshot s' \<and> initialized_scan s'"
proof -
  from assms obtain s1 s2 where
    s1: "(if \<not> initialized_snapshot s then InitializeSnapshot k s else Inr s) = Inr s1"
    and s2: "(if \<not> initialized_scan s1 then InitializeScan k s1 else Inr s1) = Inr s2"
    and r: "(if i < length (resolved_files s2) then Inr (resolved_files s2 ! i, s2)
      else if files_exhausted s2 then Inr ([], s2)
      else GetFileInternal_loop i s2) = Inr (p, s')"
    by (rule GetFileInternal_cases)
  have a: "initialized_snapshot s1"
    using s1 by (auto split: if_splits dest: InitializeSnapshot_initialized)
  have b: "initialized_snapshot s2 \<and> initialized_scan s2"
    using s2 a by (auto split: if_splits dest: InitializeScan_initialized_snapshot
        InitializeScan_initialized_scan)
  show ?thesis
  proof (cases "i < length (resolved_files s2) \<or> files_exhausted s2")
    case True
    with r have "s' = s2" by (auto split: if_splits)
    with b show ?thesis by simp
  next
    case False
    with r have "GetFileInternal_loop i s2 = Inr (p, s')" by simp
    from GetFileInternal_loop_frame [OF this] obtain a b c d where
      "s' = s2\<lparr>scan_data_iterator := a, metadata := b, files_exhausted := c,
            resolved_files := d\<rparr>" by blast
    with b show ?thesis by simp
  qed
qed

lemma GetFileInternal_result:
  assumes "GetFileInternal k i s = Inr (p, s')"
  shows "(i < length (resolved_files s') \<and> p = resolved_files s' ! i) \<or>
     (p = [] \<and> files_exhausted s' \<and> length (resolved_files s') \<le> i)"
proof -
  from assms obtain s1 s2 where
    r: "(if i < length (resolved_files s2) then Inr (resolved_files s2 ! i, s2)
      else if files_exhausted s2 then Inr ([], s2)
      else GetFileInternal_loop i s2) = Inr (p, s')"
    by (rule GetFileInternal_cases)
  then show ?thesis
    by (auto split: if_splits dest: GetFileInternal_loop_result)
qed

lemma GetFileInternal_exhausted:
  assumes "initialized_snapshot s" "initialized_scan s" "files_exhausted s"
    and "length (resolved_files s) \<le> j"
  shows "GetFileInternal k j s = Inr ([], s)"
  using assms by (simp add: GetFileInternal_def)

lemma ToDuckDBPath_empty:
  "ToDuckDBPath p = [] \<longleftrightarrow> p = [] \<or> p = ''file://''"
  by (auto simp: ToDuckDBPath_def StartsWith_def split: if_splits)

text \<open>
  Claim C2. The empty string is the answer of \<open>GetFile\<close> past the end of the list (no
  resolved path is empty: by \<open>ToDuckDBPath_empty\<close> a resolved path is empty only when
  the decoded path is the bare scheme \<open>file://\<close>). Once \<open>GetFile i\<close> has returned it, the
  list is marked as exhausted, and every later \<open>GetFile j\<close> with \<open>j \<ge> i\<close> returns the empty
  string and leaves the list as it is. Nothing is asked of the engine: the answer is the
  same for every engine \<open>k'\<close> and for every scan-data iterator \<open>it\<close> put in the place of
  the exhausted one, and that iterator is returned as it was, with all the batches it
  holds, so \<open>kernel_scan_data_next\<close> has not been called on it.
\<close>

theorem GetFile_exhaustion_stable:
  assumes "GetFile k i s = Inr ([], s')" and "[] \<notin> set (resolved_files s')" and "i \<le> j"
  shows "files_exhausted s' \<and> GetFile k j s' = Inr ([], s') \<and>
         (\<forall>k' it. GetFile k' j (s'\<lparr>scan_data_iterator := it\<rparr>)
                    = Inr ([], s'\<lparr>scan_data_iterator := it\<rparr>))"
proof -
  from assms(1) have g: "GetFileInternal k i s = Inr ([], s')" by (simp add: GetFile_def)
  from GetFileInternal_result [OF g] assms(2)
  have e: "files_exhausted s'" and l: "length (resolved_files s') \<le> i"
    by (auto dest: nth_mem)
  note init = GetFileInternal_initialized [OF g]
  have same: "GetFile k j s' = Inr ([], s')"
    using init e l assms(3) by (simp add: GetFile_def GetFileInternal_exhausted)
  have "GetFile k' j (s'\<lparr>scan_data_iterator := it\<rparr>) = Inr ([], s'\<lparr>scan_data_iterator := it\<rparr>)"
    for k' it
    using init e l assms(3) by (simp add: GetFile_def GetFileInternal_exhausted)
  with e same show ?thesis by blast
qed

theorem GetFile_exhaustion_stable_witness:
  "files_exhausted ex_list_end \<and> GetFile ex_kernel 5 ex_list_end = Inr ([], ex_list_end) \<and>
   GetFile ex_kernel_empty 5 (ex_list_end\<lparr>scan_data_iterator := ex_batches\<rparr>)
     = Inr ([], ex_list_end\<lparr>scan_data_iterator := ex_batches\<rparr>)"
proof -
  have "map_sum id fst (GetFile ex_kernel 3 ex_list) = Inr []"
    by (simp add: list_eval url_eval ex_defs)
  then have h1: "GetFile ex_kernel 3 ex_list = Inr ([], ex_list_end)"
    unfolding ex_list_end_def by (rule result_from_value)
  have h2: "[] \<notin> set (resolved_files ex_list_end)"
    unfolding ex_list_end_def by (simp add: list_eval url_eval ex_defs)
  have h3: "(3::nat) \<le> 5" by simp
  from GetFile_exhaustion_stable [OF h1 h2 h3] show ?thesis by blast
qed

text \<open>
  The flag is what stops the pull. The same exhausted list with three batches put in the
  place of its iterator and the flag cleared: \<open>GetFile 9\<close> pulls all three batches,
  resolves three more files and leaves the iterator empty.
\<close>

lemma GetFile_pulls_without_flag:
  "map_sum id (\<lambda>r. (fst r, length (resolved_files (snd r)), scan_data_iterator (snd r)))
     (GetFile ex_kernel 9 (ex_list_end\<lparr>files_exhausted := False, scan_data_iterator := ex_batches\<rparr>))
   = Inr ([], 6, [])"
  by (simp add: ex_list_end_def list_eval url_eval ex_defs)

text \<open>
  Claim C6. With an empty list of predicates \<open>ComplexFilterPushdown\<close> returns no fork (the
  null pointer) and leaves the file list and the pushdown info unchanged.
\<close>

theorem ComplexFilterPushdown_no_filters:
  "ComplexFilterPushdown db k info [] s = Inr (None, s, info)"
  by (simp add: ComplexFilterPushdown_def)

lemma DeltaSnapshot_inv_fields:
  "resolved_files s' = resolved_files s \<Longrightarrow> metadata s' = metadata s \<Longrightarrow>
   version s' = version s \<Longrightarrow> initialized_scan s' = initialized_scan s \<Longrightarrow>
   DeltaSnapshot_inv s \<Longrightarrow> DeltaSnapshot_inv s'"
  by (simp add: DeltaSnapshot_inv_def metadata_consistent_def)

lemma VisitCallback_result:
  assumes "VisitCallback s f = Inr s'"
  shows "\<exists>p m. resolved_files s' = resolved_files s @ [p] \<and> metadata s' = metadata s @ [m] \<and>
           file_number m = length (resolved_files s) \<and>
           version s = Some (delta_snapshot_version m) \<and>
           version s' = version s \<and> initialized_scan s' = initialized_scan s"
  using assms
  by (auto simp: VisitCallback_def Let_def split: sum.splits option.splits)

lemma VisitCallback_inv:
  assumes "VisitCallback s f = Inr s'" and "DeltaSnapshot_inv s"
  shows "DeltaSnapshot_inv s'"
proof -
  from VisitCallback_result [OF assms(1)] obtain p m where
    r: "resolved_files s' = resolved_files s @ [p]" "metadata s' = metadata s @ [m]"
       "file_number m = length (resolved_files s)"
       "version s = Some (delta_snapshot_version m)"
       "version s' = version s" "initialized_scan s' = initialized_scan s"
    by blast
  from assms(2) have len: "length (resolved_files s) = length (metadata s)"
    and each: "\<And>i. i < length (metadata s) \<Longrightarrow>
        file_number (metadata s ! i) = i \<and>
        version s = Some (delta_snapshot_version (metadata s ! i))"
    and st: "\<not> initialized_scan s \<Longrightarrow> version s = None"
    by (auto simp: DeltaSnapshot_inv_def metadata_consistent_def)
  have "metadata_consistent s'"
    unfolding metadata_consistent_def
  proof (intro conjI allI impI)
    show "length (resolved_files s') = length (metadata s')" using r len by simp
  next
    fix i assume "i < length (metadata s')"
    then have "i < length (metadata s) \<or> i = length (metadata s)" using r by auto
    then show "file_number (metadata s' ! i) = i"
      using r len each by (auto simp: nth_append)
  next
    fix i assume "i < length (metadata s')"
    then have "i < length (metadata s) \<or> i = length (metadata s)" using r by auto
    then show "version s' = Some (delta_snapshot_version (metadata s' ! i))"
      using r len each by (auto simp: nth_append)
  qed
  moreover have "\<not> initialized_scan s' \<longrightarrow> version s' = None" using r st by auto
  ultimately show ?thesis by (simp add: DeltaSnapshot_inv_def)
qed

lemma VisitData_inv:
  "VisitData s fs = Inr s' \<Longrightarrow> DeltaSnapshot_inv s \<Longrightarrow> DeltaSnapshot_inv s'"
proof (induction fs arbitrary: s)
  case Nil
  then show ?case by simp
next
  case (Cons f fs)
  from Cons.prems(1) obtain s1 where c: "VisitCallback s f = Inr s1"
    and d: "VisitData s1 fs = Inr s'"
    by (auto split: sum.splits)
  from VisitCallback_inv [OF c Cons.prems(2)] have "DeltaSnapshot_inv s1" .
  from Cons.IH [OF d this] show ?case .
qed

lemma GetFileInternal_loop_inv:
  "GetFileInternal_loop i s = Inr (p, s') \<Longrightarrow> DeltaSnapshot_inv s \<Longrightarrow> DeltaSnapshot_inv s'"
proof (induction i s rule: GetFileInternal_loop.induct)
  case (1 i s)
  show ?case
  proof (cases "length (resolved_files s) \<le> i")
    case False
    with "1.prems" show ?thesis by (auto simp: GetFileInternal_loop.simps)
  next
    case True
    show ?thesis
    proof (cases "scan_data_iterator s")
      case Nil
      with True "1.prems"(1) have "s' = s\<lparr>files_exhausted := True\<rparr>"
        by (auto simp: GetFileInternal_loop.simps)
      with "1.prems"(2) show ?thesis
        by (simp add: DeltaSnapshot_inv_def metadata_consistent_def)
    next
      case (Cons r rest)
      from "1.prems"(1) True Cons obtain batch s1 where r: "r = Inr batch"
        and v: "VisitData (s\<lparr>scan_data_iterator := rest\<rparr>) batch = Inr s1"
        and l: "GetFileInternal_loop i s1 = Inr (p, s')"
        by (rule GetFileInternal_loop_step)
      have "DeltaSnapshot_inv (s\<lparr>scan_data_iterator := rest\<rparr>)"
        using "1.prems"(2) by (simp add: DeltaSnapshot_inv_def metadata_consistent_def)
      from VisitData_inv [OF v this] have "DeltaSnapshot_inv s1" .
      from "1.IH" [OF True Cons r v l this] show ?thesis .
    qed
  qed
qed

lemma InitializeSnapshot_inv:
  assumes "InitializeSnapshot k s = Inr s'" and "DeltaSnapshot_inv s"
  shows "DeltaSnapshot_inv s'"
proof -
  from assms(1) have "resolved_files s' = resolved_files s \<and> metadata s' = metadata s \<and>
     version s' = version s \<and> initialized_scan s' = initialized_scan s"
    by (auto simp: InitializeSnapshot_def split: sum.splits option.splits)
  with assms(2) show ?thesis by (simp add: DeltaSnapshot_inv_fields)
qed

lemma InitializeScan_inv:
  assumes "InitializeScan k s = Inr s'" and "DeltaSnapshot_inv s" and "\<not> initialized_scan s"
  shows "DeltaSnapshot_inv s'"
proof -
  from assms(2,3) have "version s = None" and m: "metadata_consistent s"
    by (auto simp: DeltaSnapshot_inv_def)
  then have "metadata s = []"
    by (cases "metadata s") (auto simp: metadata_consistent_def)
  with m have e: "metadata s = []" "resolved_files s = []"
    by (auto simp: metadata_consistent_def)
  from assms(1) have "resolved_files s' = resolved_files s \<and> metadata s' = metadata s \<and>
     initialized_scan s'"
    by (auto simp: InitializeScan_def split: sum.splits option.splits)
  with e show ?thesis by (simp add: DeltaSnapshot_inv_def metadata_consistent_def)
qed

lemma GetFileInternal_inv:
  assumes "GetFileInternal k i s = Inr (p, s')" and "DeltaSnapshot_inv s"
  shows "DeltaSnapshot_inv s'"
proof -
  from assms(1) obtain s1 s2 where
    s1: "(if \<not> initialized_snapshot s then InitializeSnapshot k s else Inr s) = Inr s1"
    and s2: "(if \<not> initialized_scan s1 then InitializeScan k s1 else Inr s1) = Inr s2"
    and r: "(if i < length (resolved_files s2) then Inr (resolved_files s2 ! i, s2)
      else if files_exhausted s2 then Inr ([], s2)
      else GetFileInternal_loop i s2) = Inr (p, s')"
    by (rule GetFileInternal_cases)
  have a: "DeltaSnapshot_inv s1"
    using s1 assms(2) by (auto split: if_splits dest: InitializeSnapshot_inv)
  have b: "DeltaSnapshot_inv s2"
    using s2 a by (auto split: if_splits dest: InitializeScan_inv)
  show ?thesis
    using r b by (auto split: if_splits dest: GetFileInternal_loop_inv)
qed

lemma GetTotalFileCount_loop_cases:
  assumes "GetTotalFileCount_loop k i s = Inr s'"
  shows "\<exists>p s1. GetFileInternal k i s = Inr (p, s1) \<and>
           (p = [] \<longrightarrow> s' = s1) \<and>
           (p \<noteq> [] \<longrightarrow> GetTotalFileCount_loop k (i + 1) s1 = Inr s')"
proof (cases "GetFileInternal k i s")
  case (Inl e)
  with assms show ?thesis by (subst (asm) GetTotalFileCount_loop.simps) simp
next
  case (Inr ps)
  obtain p s1 where ps: "ps = (p, s1)" by (cases ps)
  from assms Inr ps
  have "(if p \<noteq> [] then GetTotalFileCount_loop k (i + 1) s1 else Inr s1) = Inr s'"
    by (subst (asm) GetTotalFileCount_loop.simps) simp
  with Inr ps show ?thesis by (auto split: if_splits)
qed

lemma GetTotalFileCount_loop_inv:
  "GetTotalFileCount_loop k i s = Inr s' \<Longrightarrow> DeltaSnapshot_inv s \<Longrightarrow> DeltaSnapshot_inv s'"
proof (induction k i s rule: GetTotalFileCount_loop.induct)
  case (1 k i s)
  from GetTotalFileCount_loop_cases [OF "1.prems"(1)]
  obtain p s1 where g: "GetFileInternal k i s = Inr (p, s1)"
    and e: "p = [] \<Longrightarrow> s' = s1"
    and n: "p \<noteq> [] \<Longrightarrow> GetTotalFileCount_loop k (i + 1) s1 = Inr s'"
    by blast
  from GetFileInternal_inv [OF g "1.prems"(2)] have i1: "DeltaSnapshot_inv s1" .
  show ?case
  proof (cases "p = []")
    case True
    with e i1 show ?thesis by simp
  next
    case False
    from "1.IH" [OF g refl False n [OF False] i1] show ?thesis .
  qed
qed

lemma GetTotalFileCount_inv:
  "GetTotalFileCount k s = Inr (n, s') \<Longrightarrow> DeltaSnapshot_inv s \<Longrightarrow> DeltaSnapshot_inv s'"
  by (auto simp: GetTotalFileCount_def split: sum.splits dest: GetTotalFileCount_loop_inv)

lemma GetAllFiles_inv:
  "GetAllFiles k s = Inr (fs, s') \<Longrightarrow> DeltaSnapshot_inv s \<Longrightarrow> DeltaSnapshot_inv s'"
  by (auto simp: GetAllFiles_def split: sum.splits dest: GetTotalFileCount_loop_inv)

lemma GetCardinality_state:
  "GetCardinality k s = Inr (st, s') \<Longrightarrow> \<exists>n. GetTotalFileCount k s = Inr (n, s')"
  by (auto simp: GetCardinality_def split: sum.splits prod.splits if_splits)

lemma GetCardinality_inv:
  "GetCardinality k s = Inr (st, s') \<Longrightarrow> DeltaSnapshot_inv s \<Longrightarrow> DeltaSnapshot_inv s'"
  by (auto dest!: GetCardinality_state dest: GetTotalFileCount_inv)

lemma Bind_inv:
  assumes "Bind k tys nms s = Inr (r, s')" and "DeltaSnapshot_inv s"
  shows "DeltaSnapshot_inv s'"
proof (cases "have_bound s")
  case True
  with assms show ?thesis by (simp add: Bind_def)
next
  case False
  with assms(1) obtain s1 where
    s1: "(if \<not> initialized_snapshot s then InitializeSnapshot k s else Inr s) = Inr s1"
    and f: "resolved_files s' = resolved_files s1 \<and> metadata s' = metadata s1 \<and>
     version s' = version s1 \<and> initialized_scan s' = initialized_scan s1"
    by (auto simp: Bind_def Let_def split: sum.splits option.splits)
  have "DeltaSnapshot_inv s1"
    using s1 assms(2) by (auto split: if_splits dest: InitializeSnapshot_inv)
  with f show ?thesis by (simp add: DeltaSnapshot_inv_fields)
qed

lemma new_DeltaSnapshot_inv:
  "new_DeltaSnapshot db raw_path = Inr s \<Longrightarrow> DeltaSnapshot_inv s"
  by (auto simp: new_DeltaSnapshot_def DeltaSnapshot_inv_def metadata_consistent_def
      split: sum.splits)

lemma new_filtered_list_inv:
  "new_filtered_list db fs s = Inr fl \<Longrightarrow> DeltaSnapshot_inv fl"
  by (auto simp: new_filtered_list_def new_DeltaSnapshot_def DeltaSnapshot_inv_def
      metadata_consistent_def split: sum.splits)

lemma ComplexFilterPushdown_cases:
  assumes "ComplexFilterPushdown db k info filters s = Inr (r, s', info')"
    and "filters \<noteq> []"
  obtains filtered_list where
    "new_filtered_list db (GenerateTableScanFilters db (rev filters) (column_indexes info)) s
       = Inr filtered_list"
    and "(r = Some filtered_list \<and> s' = s \<and> info' = info \<and>
          \<not> (profiler_IsEnabled db \<and> delta_scan_explain_files_filtered db = Some True)) \<or>
         (\<exists>old_total new_total fork. profiler_IsEnabled db \<and>
            delta_scan_explain_files_filtered db = Some True \<and>
            GetTotalFileCount k s = Inr (old_total, s') \<and>
            GetTotalFileCount k filtered_list = Inr (new_total, fork) \<and> r = Some fork)"
  using assms
  by (auto simp: ComplexFilterPushdown_def Let_def
      split: sum.splits option.splits bool.splits if_splits prod.splits)

lemma reachable_inv: "reachable db k s \<Longrightarrow> DeltaSnapshot_inv s"
proof (induction rule: reachable.induct)
  case (construct raw_path s)
  then show ?case by (rule new_DeltaSnapshot_inv)
next
  case (bind s return_types nms r s')
  then show ?case by (auto dest: Bind_inv)
next
  case (callback s f s')
  then show ?case by (auto dest: VisitCallback_inv)
next
  case (get_file s i p s')
  then show ?case by (auto simp: GetFile_def dest: GetFileInternal_inv)
next
  case (get_all_files s fs s')
  then show ?case by (auto dest: GetAllFiles_inv)
next
  case (get_total_file_count s n s')
  then show ?case by (auto dest: GetTotalFileCount_inv)
next
  case (get_cardinality s st s')
  then show ?case by (auto dest: GetCardinality_inv)
next
  case (pushdown s info filters r s' info')
  show ?case
  proof (cases "filters = []")
    case True
    with pushdown show ?thesis by (simp add: ComplexFilterPushdown_def)
  next
    case False
    from pushdown(2) False show ?thesis
      by (rule ComplexFilterPushdown_cases) (use pushdown(3) in \<open>auto dest: GetTotalFileCount_inv\<close>)
  qed
next
  case (pushdown_fork s info filters fork s' info')
  show ?case
  proof (cases "filters = []")
    case True
    with pushdown_fork show ?thesis by (simp add: ComplexFilterPushdown_def)
  next
    case False
    from pushdown_fork(2) False show ?thesis
      by (rule ComplexFilterPushdown_cases)
         (auto dest: GetTotalFileCount_inv new_filtered_list_inv)
  qed
qed

text \<open>
  Claim C9. In every state that the construction of a list, the visitor callback and the
  operations \<open>Bind\<close>, \<open>GetFile\<close>, \<open>GetAllFiles\<close>, \<open>GetTotalFileCount\<close>, \<open>GetCardinality\<close> and
  \<open>ComplexFilterPushdown\<close> can reach, the resolved files and the metadata have the same
  length, and the metadata of the file at ordinal \<open>i\<close> records the file number \<open>i\<close> and
  the version of the snapshot, which the list holds from the start of the scan on.
\<close>

theorem metadata_matches_files:
  assumes "reachable db k s"
  shows "length (resolved_files s) = length (metadata s) \<and>
         (\<forall>i<length (metadata s).
            file_number (metadata s ! i) = i \<and>
            version s = Some (delta_snapshot_version (metadata s ! i)))"
  using reachable_inv [OF assms] by (simp add: DeltaSnapshot_inv_def metadata_consistent_def)

lemmas count_eval = GetCardinality_def GetTotalFileCount_def GetTotalFileCount_loop.simps
  GetCardinality_loop_def

theorem metadata_matches_files_witness:
  "length (resolved_files ex_list_end) = length (metadata ex_list_end) \<and>
   file_number (metadata ex_list_end ! 1) = 1 \<and>
   version ex_list_end = Some (delta_snapshot_version (metadata ex_list_end ! 1))"
proof -
  have c: "new_DeltaSnapshot ex_db ''file:///data/tab'' = Inr ex_list"
    by (simp add: new_DeltaSnapshot_def ToDeltaPath_def StartsWith_def ex_defs)
  have "map_sum id fst (GetFile ex_kernel 3 ex_list) = Inr []"
    by (simp add: list_eval url_eval ex_defs)
  then have g: "GetFile ex_kernel 3 ex_list = Inr ([], ex_list_end)"
    unfolding ex_list_end_def by (rule result_from_value)
  have r: "reachable ex_db ex_kernel ex_list_end"
    by (rule reachable.get_file [OF reachable.construct [OF c] g])
  have l: "1 < length (metadata ex_list_end)"
    unfolding ex_list_end_def by (simp add: list_eval url_eval ex_defs)
  from metadata_matches_files [OF r] l show ?thesis by blast
qed

lemma InitializeSnapshot_keeps_snapshot:
  "InitializeSnapshot k s = Inr s' \<Longrightarrow> snapshot s = Some h \<Longrightarrow> snapshot s' = Some h"
  by (auto simp: InitializeSnapshot_def split: sum.splits option.splits)

lemma InitializeSnapshot_no_open:
  "snapshot s = Some h \<Longrightarrow>
     InitializeSnapshot (k\<lparr>ffi_snapshot := open_snapshot\<rparr>) s = InitializeSnapshot k s"
  by (auto simp: InitializeSnapshot_def split: sum.splits option.splits)

lemma InitializeScan_snapshot:
  "InitializeScan k s = Inr s' \<Longrightarrow> snapshot s' = snapshot s"
  by (auto simp: InitializeScan_def split: sum.splits option.splits)

lemma GetFileInternal_snapshot:
  assumes "GetFileInternal k i s = Inr (p, s')" and "snapshot s = Some h"
  shows "snapshot s' = Some h"
proof -
  from assms(1) obtain s1 s2 where
    s1: "(if \<not> initialized_snapshot s then InitializeSnapshot k s else Inr s) = Inr s1"
    and s2: "(if \<not> initialized_scan s1 then InitializeScan k s1 else Inr s1) = Inr s2"
    and r: "(if i < length (resolved_files s2) then Inr (resolved_files s2 ! i, s2)
      else if files_exhausted s2 then Inr ([], s2)
      else GetFileInternal_loop i s2) = Inr (p, s')"
    by (rule GetFileInternal_cases)
  have a: "snapshot s1 = Some h"
    using s1 assms(2) by (auto split: if_splits dest: InitializeSnapshot_keeps_snapshot)
  have b: "snapshot s2 = Some h"
    using s2 a by (auto split: if_splits dest: InitializeScan_snapshot)
  show ?thesis
  proof (cases "i < length (resolved_files s2) \<or> files_exhausted s2")
    case True
    with r b show ?thesis by (auto split: if_splits)
  next
    case False
    with r have "GetFileInternal_loop i s2 = Inr (p, s')" by simp
    from GetFileInternal_loop_frame [OF this] obtain a1 a2 a3 a4 where
      "s' = s2\<lparr>scan_data_iterator := a1, metadata := a2, files_exhausted := a3,
            resolved_files := a4\<rparr>" by blast
    with b show ?thesis by simp
  qed
qed

lemma GetTotalFileCount_loop_snapshot:
  "GetTotalFileCount_loop k i s = Inr s' \<Longrightarrow> snapshot s = Some h \<Longrightarrow> snapshot s' = Some h"
proof (induction k i s rule: GetTotalFileCount_loop.induct)
  case (1 k i s)
  from GetTotalFileCount_loop_cases [OF "1.prems"(1)]
  obtain p s1 where g: "GetFileInternal k i s = Inr (p, s1)"
    and e: "p = [] \<Longrightarrow> s' = s1"
    and n: "p \<noteq> [] \<Longrightarrow> GetTotalFileCount_loop k (i + 1) s1 = Inr s'"
    by blast
  from GetFileInternal_snapshot [OF g "1.prems"(2)] have i1: "snapshot s1 = Some h" .
  show ?case
  proof (cases "p = []")
    case True
    with e i1 show ?thesis by simp
  next
    case False
    from "1.IH" [OF g refl False n [OF False] i1] show ?thesis .
  qed
qed

lemma GetTotalFileCount_snapshot:
  "GetTotalFileCount k s = Inr (n, s') \<Longrightarrow> snapshot s = Some h \<Longrightarrow> snapshot s' = Some h"
  by (auto simp: GetTotalFileCount_def split: sum.splits dest: GetTotalFileCount_loop_snapshot)

lemma new_filtered_list_fields:
  assumes "new_filtered_list db fs s = Inr fl"
  shows "snapshot fl = snapshot s \<and> resolved_files fl = [] \<and> metadata fl = [] \<and>
         scan_data_iterator fl = [] \<and> \<not> initialized_scan fl \<and> \<not> files_exhausted fl \<and>
         table_filters fl = fs \<and> names fl = names s"
  using assms
  by (auto simp: new_filtered_list_def new_DeltaSnapshot_def split: sum.splits)

text \<open>
  Claim C7. A fork that \<open>ComplexFilterPushdown\<close> produces for a non-empty list of
  predicates, from a list whose snapshot is open, holds the handle of that snapshot (the
  pointer is copied, not the snapshot). Initialising the fork does not ask the engine
  for a snapshot: its result does not depend on what \<open>ffi::snapshot\<close> would answer, and
  the handle stays. The fork is created with no resolved files, no metadata, no
  scan-data iterator and neither started nor exhausted, whatever the list has resolved;
  the fork that is returned is this new list, or, when the profiler asks for the file
  counts, this new list after \<open>GetTotalFileCount\<close>.
\<close>

theorem ComplexFilterPushdown_fork:
  assumes "filters \<noteq> []" and "snapshot s = Some h"
    and "ComplexFilterPushdown db k info filters s = Inr (r, s', info')"
  shows "\<exists>filtered_list fork.
      new_filtered_list db (GenerateTableScanFilters db (rev filters) (column_indexes info)) s
        = Inr filtered_list
    \<and> r = Some fork
    \<and> (fork = filtered_list \<or> (\<exists>n. GetTotalFileCount k filtered_list = Inr (n, fork)))
    \<and> snapshot filtered_list = Some h \<and> snapshot fork = Some h
    \<and> resolved_files filtered_list = [] \<and> metadata filtered_list = []
    \<and> scan_data_iterator filtered_list = []
    \<and> \<not> initialized_scan filtered_list \<and> \<not> files_exhausted filtered_list
    \<and> (\<forall>k' open_snapshot.
          InitializeSnapshot (k'\<lparr>ffi_snapshot := open_snapshot\<rparr>) filtered_list
            = InitializeSnapshot k' filtered_list)
    \<and> (\<forall>k' fl. InitializeSnapshot k' filtered_list = Inr fl \<longrightarrow> snapshot fl = Some h)"
proof -
  from assms(3,1) obtain filtered_list where
    n: "new_filtered_list db (GenerateTableScanFilters db (rev filters) (column_indexes info)) s
       = Inr filtered_list"
    and c: "(r = Some filtered_list \<and> s' = s \<and> info' = info \<and>
          \<not> (profiler_IsEnabled db \<and> delta_scan_explain_files_filtered db = Some True)) \<or>
         (\<exists>old_total new_total fork. profiler_IsEnabled db \<and>
            delta_scan_explain_files_filtered db = Some True \<and>
            GetTotalFileCount k s = Inr (old_total, s') \<and>
            GetTotalFileCount k filtered_list = Inr (new_total, fork) \<and> r = Some fork)"
    by (rule ComplexFilterPushdown_cases)
  from new_filtered_list_fields [OF n] assms(2)
  have f: "snapshot filtered_list = Some h" "resolved_files filtered_list = []"
    "metadata filtered_list = []" "scan_data_iterator filtered_list = []"
    "\<not> initialized_scan filtered_list" "\<not> files_exhausted filtered_list"
    by simp_all
  from c obtain fork where fk: "r = Some fork"
    "fork = filtered_list \<or> (\<exists>n. GetTotalFileCount k filtered_list = Inr (n, fork))"
    by auto
  from fk(2) f(1) have sf: "snapshot fork = Some h"
    by (auto dest: GetTotalFileCount_snapshot)
  have i1: "\<forall>k' open_snapshot.
          InitializeSnapshot (k'\<lparr>ffi_snapshot := open_snapshot\<rparr>) filtered_list
            = InitializeSnapshot k' filtered_list"
    using f(1) by (simp add: InitializeSnapshot_no_open)
  have i2: "\<forall>k' fl. InitializeSnapshot k' filtered_list = Inr fl \<longrightarrow> snapshot fl = Some h"
    using f(1) by (auto dest: InitializeSnapshot_keeps_snapshot)
  from n fk sf f i1 i2 show ?thesis by blast
qed

theorem ComplexFilterPushdown_fork_witness:
  "ComplexFilterPushdown ex_db ex_kernel ex_info [5] ex_list_open
     = Inr (Some ex_fork, ex_list_open, ex_info)
   \<and> snapshot ex_list_open = Some 7 \<and> snapshot ex_fork = Some 7
   \<and> resolved_files ex_fork = []"
proof -
  have h1: "[5::nat] \<noteq> []" by simp
  have h2: "snapshot ex_list_open = Some 7" by (simp add: ex_list_open_def)
  have h3: "ComplexFilterPushdown ex_db ex_kernel ex_info [5] ex_list_open
     = Inr (Some ex_fork, ex_list_open, ex_info)"
    by (simp add: ComplexFilterPushdown_def new_filtered_list_def new_DeltaSnapshot_def
        ToDeltaPath_def StartsWith_def vector_at_def ex_defs ex_list_open_def ex_fork_def
        ex_info_def)
  from ComplexFilterPushdown_fork [OF h1 h2 h3] have "snapshot ex_fork = Some 7" by auto
  moreover have "resolved_files ex_fork = []" by (simp add: ex_fork_def ex_list_def)
  ultimately show ?thesis using h2 h3 by simp
qed

subsection \<open>The cardinality\<close>

lemma GetCardinality_loop_fold:
  "fold (\<lambda>metadatum (total_tuple_count, have_any_stats).
             if cardinality metadatum \<noteq> word_of_nat INVALID_INDEX
             then (total_tuple_count + cardinality metadatum, True)
             else (total_tuple_count, have_any_stats))
          ms (t, b)
   = (t + sum_list (row_count_estimates ms), b \<or> row_count_estimates ms \<noteq> [])"
  by (induction ms arbitrary: t b) (auto simp: row_count_estimates_def add.assoc)

lemma GetCardinality_loop_eq:
  "GetCardinality_loop ms = (sum_list (row_count_estimates ms), row_count_estimates ms \<noteq> [])"
  by (simp add: GetCardinality_loop_def GetCardinality_loop_fold)

lemma GetTotalFileCount_loop_exhausts:
  "GetTotalFileCount_loop k i s = Inr s' \<Longrightarrow> [] \<notin> set (resolved_files s') \<Longrightarrow>
     files_exhausted s'"
proof (induction k i s rule: GetTotalFileCount_loop.induct)
  case (1 k i s)
  from GetTotalFileCount_loop_cases [OF "1.prems"(1)]
  obtain p s1 where g: "GetFileInternal k i s = Inr (p, s1)"
    and e: "p = [] \<Longrightarrow> s' = s1"
    and n: "p \<noteq> [] \<Longrightarrow> GetTotalFileCount_loop k (i + 1) s1 = Inr s'"
    by blast
  show ?case
  proof (cases "p = []")
    case True
    with e have "s' = s1" by simp
    with GetFileInternal_result [OF g] True "1.prems"(2) show ?thesis
      by (auto dest: nth_mem)
  next
    case False
    from "1.IH" [OF g refl False n [OF False] "1.prems"(2)] show ?thesis .
  qed
qed

lemma unat_sum_list_no_overflow:
  "sum_list (map unat ws) < 2 ^ 64 \<Longrightarrow> unat (sum_list ws :: 64 word) = sum_list (map unat ws)"
proof (induction ws)
  case Nil
  then show ?case by simp
next
  case (Cons w ws)
  then have "sum_list (map unat ws) < 2 ^ 64" by simp
  with Cons.IH have "unat (sum_list ws) = sum_list (map unat ws)" by simp
  with Cons.prems show ?case by (simp add: unat_word_ariths)
qed

text \<open>
  Claim C3, as amended. \<open>GetCardinality\<close> expands the list to its end (the list is marked
  as exhausted, the empty string being the answer past the end), and then returns the
  statistics (0, 0) when the list has no files; otherwise it returns no statistics when
  no file has a usable row-count estimate, and otherwise the sum of the usable
  estimates, in 64-bit arithmetic, as both cardinalities. The sum is the exact sum of
  the estimates when that is below \<open>2 ^ 64\<close>.
\<close>

theorem GetCardinality_result:
  assumes "GetCardinality k s = Inr (r, s')"
  shows "([] \<notin> set (resolved_files s') \<longrightarrow> files_exhausted s')
       \<and> r = (if resolved_files s' = []
              then Some \<lparr>estimated_cardinality = 0, max_cardinality = 0\<rparr>
              else if row_count_estimates (metadata s') = [] then None
              else Some \<lparr>estimated_cardinality = sum_list (row_count_estimates (metadata s')),
                         max_cardinality = sum_list (row_count_estimates (metadata s'))\<rparr>)
       \<and> (sum_list (map unat (row_count_estimates (metadata s'))) < 2 ^ 64 \<longrightarrow>
            unat (sum_list (row_count_estimates (metadata s')))
              = sum_list (map unat (row_count_estimates (metadata s'))))"
proof -
  from assms obtain n where t: "GetTotalFileCount k s = Inr (n, s')"
    by (auto dest: GetCardinality_state)
  then have l: "GetTotalFileCount_loop k (length (resolved_files s)) s = Inr s'"
    and n: "n = length (resolved_files s')"
    by (auto simp: GetTotalFileCount_def split: sum.splits)
  have 1: "[] \<notin> set (resolved_files s') \<longrightarrow> files_exhausted s'"
    using GetTotalFileCount_loop_exhausts [OF l] by blast
  have 2: "r = (if resolved_files s' = []
              then Some \<lparr>estimated_cardinality = 0, max_cardinality = 0\<rparr>
              else if row_count_estimates (metadata s') = [] then None
              else Some \<lparr>estimated_cardinality = sum_list (row_count_estimates (metadata s')),
                         max_cardinality = sum_list (row_count_estimates (metadata s'))\<rparr>)"
    using assms t n by (auto simp: GetCardinality_def GetCardinality_loop_eq)
  from 1 2 show ?thesis by (simp add: unat_sum_list_no_overflow)
qed

text \<open>
  Claim C3 as stated fails for a table without files: no file carries a usable estimate,
  and the result is the statistics (0, 0), not the absence of statistics.
\<close>

theorem GetCardinality_empty_table_counterexample:
  "GetCardinality ex_kernel_empty ex_list
     = Inr (Some \<lparr>estimated_cardinality = 0, max_cardinality = 0\<rparr>, ex_list_empty_end)
   \<and> metadata ex_list_empty_end = []"
  by (simp add: count_eval list_eval ex_defs ex_kernel_empty_def ex_list_empty_end_def)

theorem GetCardinality_result_witness:
  "files_exhausted ex_list_full \<and> row_count_estimates (metadata ex_list_full) = [10, 5] \<and>
   map_sum id fst (GetCardinality ex_kernel ex_list)
     = Inr (Some \<lparr>estimated_cardinality = 15, max_cardinality = 15\<rparr>)"
proof -
  have v: "map_sum id fst (GetCardinality ex_kernel ex_list)
     = Inr (Some \<lparr>estimated_cardinality = 15, max_cardinality = 15\<rparr>)"
    by (simp add: count_eval list_eval url_eval ex_defs)
  then have h: "GetCardinality ex_kernel ex_list
     = Inr (Some \<lparr>estimated_cardinality = 15, max_cardinality = 15\<rparr>, ex_list_full)"
    unfolding ex_list_full_def by (rule result_from_value)
  have e: "[] \<notin> set (resolved_files ex_list_full)"
    unfolding ex_list_full_def by (simp add: count_eval list_eval url_eval ex_defs)
  have m: "row_count_estimates (metadata ex_list_full) = [10, 5]"
    unfolding ex_list_full_def
    by (simp add: row_count_estimates_def count_eval list_eval url_eval ex_defs)
  from GetCardinality_result [OF h] e m v show ?thesis by simp
qed

section \<open>Properties of the multi-file reader\<close>

lemma CIEquals_find:
  "CIEquals k k' \<Longrightarrow> ci_find m k = ci_find m k'"
  by (induction m) (auto simp: CIEquals_def)

lemma ci_find_append:
  "ci_find (m @ [(k, v)]) k' =
     (case ci_find m k' of Some w \<Rightarrow> Some w | None \<Rightarrow> if CIEquals k k' then Some v else None)"
  by (induction m) auto

lemma ci_find_insert:
  "ci_find (ci_insert m k v) k' =
     (case ci_find m k' of Some w \<Rightarrow> Some w | None \<Rightarrow> if CIEquals k k' then Some v else None)"
proof (cases "ci_find m k")
  case None
  then show ?thesis by (simp add: ci_insert_def ci_find_append)
next
  case (Some w)
  then have "CIEquals k k' \<Longrightarrow> ci_find m k' = Some w"
    using CIEquals_find [of k k' m] by simp
  with Some show ?thesis by (auto simp: ci_insert_def split: option.splits)
qed

lemma ci_find_assign:
  "ci_find (ci_assign m k v) k' = (if CIEquals k k' then Some v else ci_find m k')"
  by (induction m) (auto simp: CIEquals_def)

lemma local_name_map_prefix:
  "(case ci_find (fold (\<lambda>col_idx name_map. ci_assign name_map (name (lc ! col_idx)) col_idx)
                    [0..<n] []) nm of
      None \<Rightarrow> True
    | Some local_id \<Rightarrow> local_id < n)
   \<and> ((\<forall>j<n. \<not> CIEquals (name (lc ! j)) nm) \<longrightarrow>
        ci_find (fold (\<lambda>col_idx name_map. ci_assign name_map (name (lc ! col_idx)) col_idx)
                    [0..<n] []) nm = None)"
proof (induction n)
  case 0
  show ?case by simp
next
  case (Suc n)
  then show ?case
    by (auto simp: ci_find_assign less_Suc_eq split: option.splits)
qed

lemma local_name_map_in_range:
  "ci_find (local_name_map lc) nm = Some local_id \<Longrightarrow> local_id < length lc"
  using local_name_map_prefix [where lc = lc and n = "length lc" and nm = nm]
  by (simp add: local_name_map_def)

lemma local_name_map_absent:
  "\<forall>c \<in> set lc. \<not> CIEquals (name c) nm \<Longrightarrow> ci_find (local_name_map lc) nm = None"
  using local_name_map_prefix [where lc = lc and n = "length lc" and nm = nm]
  by (simp add: local_name_map_def)

lemma CustomMulfiFileNameMapping_loop_ok:
  assumes "\<forall>n local_id. ci_find nm n = Some local_id \<longrightarrow> local_id < length lc"
    and "\<forall>j<length ids. \<not> list_ex (\<lambda>e. fst e = i + j) (constant_map rd) \<longrightarrow> ids ! j < length gc"
  shows "\<exists>rd'. CustomMulfiFileNameMapping_loop nm lc gc i ids rd = Inr rd'
           \<and> set (constant_map rd) \<subseteq> set (constant_map rd')
           \<and> (\<forall>j<length ids. \<not> list_ex (\<lambda>e. fst e = i + j) (constant_map rd) \<longrightarrow>
                 ci_find nm (name (gc ! (ids ! j))) = None \<longrightarrow>
                 (i + j, Value_NULL (type (gc ! (ids ! j)))) \<in> set (constant_map rd'))"
  using assms(2)
proof (induction ids arbitrary: i rd)
  case Nil
  show ?case by simp
next
  case (Cons global_id ids)
  show ?case
  proof (cases "list_ex (\<lambda>e. fst e = i) (constant_map rd)")
    case True
    have "\<forall>j<length ids. \<not> list_ex (\<lambda>e. fst e = (i + 1) + j) (constant_map rd) \<longrightarrow>
            ids ! j < length gc"
      using Cons.prems by fastforce
    from Cons.IH [OF this] obtain rd' where
      r: "CustomMulfiFileNameMapping_loop nm lc gc (i + 1) ids rd = Inr rd'"
        "set (constant_map rd) \<subseteq> set (constant_map rd')"
        "\<forall>j<length ids. \<not> list_ex (\<lambda>e. fst e = (i + 1) + j) (constant_map rd) \<longrightarrow>
                 ci_find nm (name (gc ! (ids ! j))) = None \<longrightarrow>
                 ((i + 1) + j, Value_NULL (type (gc ! (ids ! j)))) \<in> set (constant_map rd')"
      by blast
    have "\<forall>j<length (global_id # ids).
            \<not> list_ex (\<lambda>e. fst e = i + j) (constant_map rd) \<longrightarrow>
            ci_find nm (name (gc ! ((global_id # ids) ! j))) = None \<longrightarrow>
            (i + j, Value_NULL (type (gc ! ((global_id # ids) ! j)))) \<in> set (constant_map rd')"
    proof (intro allI impI)
      fix j assume j: "j < length (global_id # ids)"
        and nc: "\<not> list_ex (\<lambda>e. fst e = i + j) (constant_map rd)"
        and ab: "ci_find nm (name (gc ! ((global_id # ids) ! j))) = None"
      show "(i + j, Value_NULL (type (gc ! ((global_id # ids) ! j)))) \<in> set (constant_map rd')"
      proof (cases j)
        case 0
        with nc True show ?thesis by simp
      next
        case (Suc j')
        with j nc ab r(3) show ?thesis by simp
      qed
    qed
    with r True show ?thesis by simp
  next
    case False
    then have inr: "global_id < length gc" using Cons.prems by fastforce
    show ?thesis
    proof (cases "ci_find nm (name (gc ! global_id))")
      case None
      let ?rd1 = "rd\<lparr>constant_map := constant_map rd @ [(i, Value_NULL (type (gc ! global_id)))]\<rparr>"
      have "\<forall>j<length ids. \<not> list_ex (\<lambda>e. fst e = (i + 1) + j) (constant_map ?rd1) \<longrightarrow>
            ids ! j < length gc"
        using Cons.prems by fastforce
      from Cons.IH [OF this] obtain rd' where
        r: "CustomMulfiFileNameMapping_loop nm lc gc (i + 1) ids ?rd1 = Inr rd'"
          "set (constant_map ?rd1) \<subseteq> set (constant_map rd')"
          "\<forall>j<length ids. \<not> list_ex (\<lambda>e. fst e = (i + 1) + j) (constant_map ?rd1) \<longrightarrow>
                 ci_find nm (name (gc ! (ids ! j))) = None \<longrightarrow>
                 ((i + 1) + j, Value_NULL (type (gc ! (ids ! j)))) \<in> set (constant_map rd')"
        by blast
      have "\<forall>j<length (global_id # ids).
            \<not> list_ex (\<lambda>e. fst e = i + j) (constant_map rd) \<longrightarrow>
            ci_find nm (name (gc ! ((global_id # ids) ! j))) = None \<longrightarrow>
            (i + j, Value_NULL (type (gc ! ((global_id # ids) ! j)))) \<in> set (constant_map rd')"
      proof (intro allI impI)
        fix j assume j: "j < length (global_id # ids)"
          and nc: "\<not> list_ex (\<lambda>e. fst e = i + j) (constant_map rd)"
          and ab: "ci_find nm (name (gc ! ((global_id # ids) ! j))) = None"
        show "(i + j, Value_NULL (type (gc ! ((global_id # ids) ! j)))) \<in> set (constant_map rd')"
        proof (cases j)
          case 0
          with r(2) show ?thesis by auto
        next
          case (Suc j')
          with j nc ab r(3) show ?thesis by simp
        qed
      qed
      with r False inr None show ?thesis by auto
    next
      case (Some local_id)
      from assms(1) Some have lr: "local_id < length lc" by blast
      define rd0 where "rd0 = (if type (gc ! global_id) \<noteq> type (lc ! local_id)
                              then rd\<lparr>cast_map := (cast_map rd)(local_id \<mapsto> type (gc ! global_id))\<rparr>
                              else rd)"
      define rd1 where "rd1 = rd0\<lparr>column_mapping := column_mapping rd0 @ [i],
                             column_ids := column_ids rd0 @ [local_id]\<rparr>"
      have cm: "constant_map rd1 = constant_map rd" by (simp add: rd1_def rd0_def)
      have "\<forall>j<length ids. \<not> list_ex (\<lambda>e. fst e = (i + 1) + j) (constant_map rd1) \<longrightarrow>
            ids ! j < length gc"
        using Cons.prems cm by fastforce
      from Cons.IH [OF this] obtain rd' where
        r: "CustomMulfiFileNameMapping_loop nm lc gc (i + 1) ids rd1 = Inr rd'"
          "set (constant_map rd1) \<subseteq> set (constant_map rd')"
          "\<forall>j<length ids. \<not> list_ex (\<lambda>e. fst e = (i + 1) + j) (constant_map rd1) \<longrightarrow>
                 ci_find nm (name (gc ! (ids ! j))) = None \<longrightarrow>
                 ((i + 1) + j, Value_NULL (type (gc ! (ids ! j)))) \<in> set (constant_map rd')"
        by blast
      have "\<forall>j<length (global_id # ids).
            \<not> list_ex (\<lambda>e. fst e = i + j) (constant_map rd) \<longrightarrow>
            ci_find nm (name (gc ! ((global_id # ids) ! j))) = None \<longrightarrow>
            (i + j, Value_NULL (type (gc ! ((global_id # ids) ! j)))) \<in> set (constant_map rd')"
      proof (intro allI impI)
        fix j assume j: "j < length (global_id # ids)"
          and nc: "\<not> list_ex (\<lambda>e. fst e = i + j) (constant_map rd)"
          and ab: "ci_find nm (name (gc ! ((global_id # ids) ! j))) = None"
        show "(i + j, Value_NULL (type (gc ! ((global_id # ids) ! j)))) \<in> set (constant_map rd')"
        proof (cases j)
          case 0
          with ab Some show ?thesis by simp
        next
          case (Suc j')
          with j nc ab r(3) cm show ?thesis by simp
        qed
      qed
      moreover have "CustomMulfiFileNameMapping_loop nm lc gc i (global_id # ids) rd
          = CustomMulfiFileNameMapping_loop nm lc gc (i + 1) ids rd1"
        using False inr Some lr by (simp add: vector_at_def rd1_def rd0_def Let_def)
      ultimately show ?thesis using r cm by auto
    qed
  qed
qed

lemma read_positions_shift:
  assumes "set (constant_map rd) \<subseteq> set (constant_map rd1)"
  shows "read_positions nm gc (i + 1) ids rd1 \<subseteq> read_positions nm gc i (global_id # ids) rd"
proof
  fix x assume "x \<in> read_positions nm gc (i + 1) ids rd1"
  then obtain j where j: "x = i + 1 + j" "j < length ids"
    "\<not> list_ex (\<lambda>e. fst e = i + 1 + j) (constant_map rd1)"
    "ci_find nm (name (gc ! (ids ! j))) \<noteq> None"
    unfolding read_positions_def by blast
  from j(3) assms have "\<not> list_ex (\<lambda>e. fst e = i + Suc j) (constant_map rd)"
    by (auto simp: list_ex_iff)
  with j have "Suc j < length (global_id # ids) \<and>
      \<not> list_ex (\<lambda>e. fst e = i + Suc j) (constant_map rd) \<and>
      ci_find nm (name (gc ! ((global_id # ids) ! Suc j))) \<noteq> None \<and> x = i + Suc j"
    by simp
  then show "x \<in> read_positions nm gc i (global_id # ids) rd"
    unfolding read_positions_def by blast
qed

lemma read_positions_here:
  assumes "\<not> list_ex (\<lambda>e. fst e = i) (constant_map rd)"
    and "ci_find nm (name (gc ! global_id)) \<noteq> None"
  shows "i \<in> read_positions nm gc i (global_id # ids) rd"
proof -
  have "0 < length (global_id # ids) \<and>
      \<not> list_ex (\<lambda>e. fst e = i + 0) (constant_map rd) \<and>
      ci_find nm (name (gc ! ((global_id # ids) ! 0))) \<noteq> None \<and> i = i + 0"
    using assms by simp
  then show ?thesis unfolding read_positions_def by blast
qed

lemma CustomMulfiFileNameMapping_loop_column_mapping:
  "CustomMulfiFileNameMapping_loop nm lc gc i ids rd = Inr rd' \<Longrightarrow>
     set (column_mapping rd') \<subseteq> set (column_mapping rd) \<union> read_positions nm gc i ids rd"
proof (induction ids arbitrary: i rd)
  case Nil
  then show ?case by simp
next
  case (Cons global_id ids)
  show ?case
  proof (cases "list_ex (\<lambda>e. fst e = i) (constant_map rd)")
    case True
    with Cons.prems have "CustomMulfiFileNameMapping_loop nm lc gc (i + 1) ids rd = Inr rd'"
      by simp
    from Cons.IH [OF this] read_positions_shift [of rd rd nm gc i ids global_id]
    show ?thesis by blast
  next
    case False
    from False Cons.prems have inr: "global_id < length gc" by (auto split: if_splits)
    show ?thesis
    proof (cases "ci_find nm (name (gc ! global_id))")
      case None
      define rd1 where
        "rd1 = rd\<lparr>constant_map := constant_map rd @ [(i, Value_NULL (type (gc ! global_id)))]\<rparr>"
      have cm: "set (constant_map rd) \<subseteq> set (constant_map rd1)"
        "column_mapping rd1 = column_mapping rd"
        by (auto simp: rd1_def)
      from False inr None Cons.prems
      have "CustomMulfiFileNameMapping_loop nm lc gc (i + 1) ids rd1 = Inr rd'"
        by (simp add: rd1_def)
      from Cons.IH [OF this] read_positions_shift [OF cm(1), of nm gc i ids global_id] cm(2)
      show ?thesis by auto
    next
      case (Some local_id)
      have here: "i \<in> read_positions nm gc i (global_id # ids) rd"
        using False Some by (intro read_positions_here) simp_all
      define rd0 where "rd0 = (if type (gc ! global_id) \<noteq> type (lc ! local_id)
                              then rd\<lparr>cast_map := (cast_map rd)(local_id \<mapsto> type (gc ! global_id))\<rparr>
                              else rd)"
      define rd1 where "rd1 = rd0\<lparr>column_mapping := column_mapping rd0 @ [i],
                             column_ids := column_ids rd0 @ [local_id]\<rparr>"
      have cm: "set (constant_map rd) \<subseteq> set (constant_map rd1)"
        "set (column_mapping rd1) = insert i (set (column_mapping rd))"
        by (simp_all add: rd1_def rd0_def)
      from False inr Some Cons.prems
      have "CustomMulfiFileNameMapping_loop nm lc gc (i + 1) ids rd1 = Inr rd'"
        by (auto simp: vector_at_def rd1_def rd0_def Let_def split: if_splits)
      from Cons.IH [OF this] read_positions_shift [OF cm(1), of nm gc i ids global_id]
        cm(2) here
      show ?thesis by auto
    qed
  qed
qed

lemma CustomMulfiFileNameMapping_not_read:
  assumes "CustomMulfiFileNameMapping lc gc ids rd = Inr rd'"
    and "i \<notin> set (column_mapping rd)"
    and "list_ex (\<lambda>e. fst e = i) (constant_map rd)
         \<or> (i < length ids \<and> ci_find (local_name_map lc) (name (gc ! (ids ! i))) = None)"
  shows "i \<notin> set (column_mapping rd')"
proof -
  from assms(1) obtain r where
    l: "CustomMulfiFileNameMapping_loop (local_name_map lc) lc gc 0 ids rd = Inr r"
    and e: "column_mapping rd' = column_mapping r"
    by (auto simp: CustomMulfiFileNameMapping_def split: sum.splits)
  have "i \<notin> read_positions (local_name_map lc) gc 0 ids rd"
    using assms(3) unfolding read_positions_def by auto
  with CustomMulfiFileNameMapping_loop_column_mapping [OF l] assms(2) e
  show ?thesis by auto
qed

text \<open>
  Claim C5. A projected column that is not already constant for the file and whose name
  no column of the file has, compared without regard to case, is resolved by the name
  mapping to a NULL constant of its global type: the mapping returns (it raises no error,
  the global column ids of the columns that are not constant being in range), its
  constant map has the NULL value for the column, and no column of the file is read
  for it.
\<close>

theorem missing_column_is_null:
  assumes "i < length global_column_ids"
    and "\<not> list_ex (\<lambda>entry. fst entry = i) (constant_map reader_data)"
    and "\<forall>j<length global_column_ids.
           \<not> list_ex (\<lambda>entry. fst entry = j) (constant_map reader_data) \<longrightarrow>
           global_column_ids ! j < length global_columns"
    and "\<forall>c \<in> set local_columns.
           \<not> CIEquals (name c) (name (global_columns ! (global_column_ids ! i)))"
    and "i \<notin> set (column_mapping reader_data)"
  shows "\<exists>rd. CustomMulfiFileNameMapping local_columns global_columns global_column_ids
                 reader_data = Inr rd
            \<and> (i, Value_NULL (type (global_columns ! (global_column_ids ! i))))
                 \<in> set (constant_map rd)
            \<and> i \<notin> set (column_mapping rd)"
proof -
  have a: "\<forall>n local_id. ci_find (local_name_map local_columns) n = Some local_id
            \<longrightarrow> local_id < length local_columns"
    by (blast dest: local_name_map_in_range)
  have b: "\<forall>j<length global_column_ids.
           \<not> list_ex (\<lambda>e. fst e = 0 + j) (constant_map reader_data) \<longrightarrow>
           global_column_ids ! j < length global_columns"
    using assms(3) by simp
  from CustomMulfiFileNameMapping_loop_ok [where nm = "local_name_map local_columns"
      and lc = local_columns and ids = global_column_ids and i = 0 and rd = reader_data
      and gc = global_columns, OF a b]
  obtain rd' where r: "CustomMulfiFileNameMapping_loop (local_name_map local_columns)
        local_columns global_columns 0 global_column_ids reader_data = Inr rd'"
    and n: "\<forall>j<length global_column_ids.
              \<not> list_ex (\<lambda>e. fst e = 0 + j) (constant_map reader_data) \<longrightarrow>
              ci_find (local_name_map local_columns)
                (name (global_columns ! (global_column_ids ! j))) = None \<longrightarrow>
              (0 + j, Value_NULL (type (global_columns ! (global_column_ids ! j))))
                \<in> set (constant_map rd')"
    by blast
  from local_name_map_absent [OF assms(4)] n assms(1,2)
  have "(i, Value_NULL (type (global_columns ! (global_column_ids ! i)))) \<in> set (constant_map rd')"
    by simp
  moreover obtain rd where rd: "CustomMulfiFileNameMapping local_columns global_columns
      global_column_ids reader_data = Inr rd" and c: "constant_map rd = constant_map rd'"
    using r by (simp add: CustomMulfiFileNameMapping_def)
  moreover have "i \<notin> set (column_mapping rd)"
    using CustomMulfiFileNameMapping_not_read [OF rd assms(5)]
      local_name_map_absent [OF assms(4)] assms(1) by simp
  ultimately show ?thesis by simp
qed

lemmas ci_eval = CIEquals_def Lower_def CharacterToLower_def char_of_def bit_Suc_0_iff

theorem missing_column_is_null_witness:
  "\<exists>rd. CustomMulfiFileNameMapping ex_local_columns ex_global_columns [2, 0] ex_reader_data
           = Inr rd
        \<and> (0, Value_NULL DOUBLE) \<in> set (constant_map rd) \<and> 0 \<notin> set (column_mapping rd)"
proof -
  have h1: "0 < length [2::nat, 0]" by simp
  have h2: "\<not> list_ex (\<lambda>entry. fst entry = 0) (constant_map ex_reader_data)"
    by (simp add: ex_reader_data_def)
  have h3: "\<forall>j<length [2::nat, 0].
           \<not> list_ex (\<lambda>entry. fst entry = j) (constant_map ex_reader_data) \<longrightarrow>
           [2::nat, 0] ! j < length ex_global_columns"
    by (simp add: ex_global_columns_def less_Suc_eq)
  have h4: "\<forall>c \<in> set ex_local_columns.
           \<not> CIEquals (name c) (name (ex_global_columns ! ([2, 0] ! 0)))"
    by (simp add: ex_local_columns_def ex_global_columns_def ci_eval)
  have h5: "0 \<notin> set (column_mapping ex_reader_data)" by (simp add: ex_reader_data_def)
  from missing_column_is_null [OF h1 h2 h3 h4 h5] show ?thesis
    by (simp add: ex_global_columns_def)
qed

subsection \<open>Partition columns\<close>

lemma partition_constant_mono:
  "partition_constant db col v i cm \<Longrightarrow> set cm \<subseteq> set cm' \<Longrightarrow> partition_constant db col v i cm'"
  unfolding partition_constant_def by blast

lemma FinalizeBind_loop_adds:
  "FinalizeBind_loop db gc pm i ids cm = Inr cm' \<Longrightarrow>
     set cm \<subseteq> set cm' \<and>
     (\<forall>j<length ids. \<not> IsRowIdColumnId (ids ! j) \<longrightarrow> ids ! j < length gc \<longrightarrow>
        (\<forall>v. ci_find pm (name (gc ! (ids ! j))) = Some v \<longrightarrow>
           partition_constant db (gc ! (ids ! j)) v (i + j) cm'))"
proof (induction ids arbitrary: i cm)
  case Nil
  then show ?case by simp
next
  case (Cons col_id ids)
  let ?P = "\<lambda>i ids cm'. \<forall>j<length ids. \<not> IsRowIdColumnId (ids ! j) \<longrightarrow> ids ! j < length gc \<longrightarrow>
        (\<forall>v. ci_find pm (name (gc ! (ids ! j))) = Some v \<longrightarrow>
           partition_constant db (gc ! (ids ! j)) v (i + j) cm')"
  have step: "set cm \<subseteq> set cm' \<and> ?P i (col_id # ids) cm'"
    if l: "FinalizeBind_loop db gc pm (i + 1) ids cm1 = Inr cm'"
      and s: "set cm \<subseteq> set cm1"
      and h: "\<not> IsRowIdColumnId col_id \<longrightarrow> col_id < length gc \<longrightarrow>
        (\<forall>v. ci_find pm (name (gc ! col_id)) = Some v \<longrightarrow>
           partition_constant db (gc ! col_id) v i cm1)"
    for cm1
  proof -
    from Cons.IH [OF l] have sub: "set cm1 \<subseteq> set cm'" and rest: "?P (i + 1) ids cm'"
      by blast+
    have "?P i (col_id # ids) cm'"
    proof (intro allI impI)
      fix j v assume j: "j < length (col_id # ids)"
        and nr: "\<not> IsRowIdColumnId ((col_id # ids) ! j)"
        and ir: "(col_id # ids) ! j < length gc"
        and f: "ci_find pm (name (gc ! ((col_id # ids) ! j))) = Some v"
      show "partition_constant db (gc ! ((col_id # ids) ! j)) v (i + j) cm'"
      proof (cases j)
        case 0
        with nr ir f h have "partition_constant db (gc ! col_id) v i cm1" by simp
        from partition_constant_mono [OF this sub] 0 show ?thesis by simp
      next
        case (Suc j')
        with j nr ir f have "j' < length ids" "\<not> IsRowIdColumnId (ids ! j')"
          "ids ! j' < length gc" "ci_find pm (name (gc ! (ids ! j'))) = Some v"
          by simp_all
        with rest have "partition_constant db (gc ! (ids ! j')) v (i + 1 + j') cm'"
          by blast
        with Suc show ?thesis by simp
      qed
    qed
    with s sub show "set cm \<subseteq> set cm' \<and> ?P i (col_id # ids) cm'" by blast
  qed
  show ?case
  proof (cases "IsRowIdColumnId col_id")
    case True
    with Cons.prems have l: "FinalizeBind_loop db gc pm (i + 1) ids cm = Inr cm'" by simp
    show ?thesis by (rule step [OF l]) (use True in simp_all)
  next
    case False
    with Cons.prems have inr: "col_id < length gc"
      by (auto simp: vector_at_def split: if_splits)
    show ?thesis
    proof (cases "ci_find pm (name (gc ! col_id))")
      case None
      with False inr Cons.prems have l: "FinalizeBind_loop db gc pm (i + 1) ids cm = Inr cm'"
        by (simp add: vector_at_def)
      show ?thesis by (rule step [OF l]) (use None in simp_all)
    next
      case (Some v)
      show ?thesis
      proof (cases "type (gc ! col_id) = BLOB")
        case True
        with False inr Some Cons.prems
        have l: "FinalizeBind_loop db gc pm (i + 1) ids (cm @ [(i, Value_BLOB_RAW v)]) = Inr cm'"
          by (simp add: vector_at_def)
        show ?thesis
          by (rule step [OF l]) (use True Some in \<open>auto simp: partition_constant_def\<close>)
      next
        case nb: False
        with False inr Some Cons.prems obtain val where
          c: "DefaultCastAs db v (type (gc ! col_id)) = Inr val"
          and l: "FinalizeBind_loop db gc pm (i + 1) ids (cm @ [(i, val)]) = Inr cm'"
          by (auto simp: vector_at_def split: sum.splits)
        show ?thesis
          by (rule step [OF l]) (use nb Some c in \<open>auto simp: partition_constant_def\<close>)
      qed
    qed
  qed
qed

lemma CreateColumnMapping_not_read:
  assumes "CreateColumnMapping lc gc ids rd gstate = Inr rd2"
    and "i < length ids" and "i \<notin> set (column_mapping rd)"
    and "list_ex (\<lambda>e. fst e = i) (constant_map rd)"
  shows "i \<notin> set (column_mapping rd2)"
proof -
  from assms(1) obtain rd1 gs where
    m: "CustomMulfiFileNameMapping lc gc ids rd = Inr rd1"
    and g: "gstate = Some gs"
    and c: "set (column_mapping rd2) \<subseteq> set (column_mapping rd1) \<union>
            (if file_row_number_idx gs \<ge> length ids then {file_row_number_idx gs} else {})"
    by (auto simp: CreateColumnMapping_def split: sum.splits option.splits if_splits)
  from CustomMulfiFileNameMapping_not_read [OF m assms(3)] assms(4)
  have "i \<notin> set (column_mapping rd1)" by simp
  with c assms(2) show ?thesis by (auto split: if_splits)
qed

lemma FinalizeBind_with_metadata:
  assumes "file_list gs = Some snapshot_list" and "file_list_idx reader_data = Some idx"
    and "GetMetaData snapshot_list idx = Inr file_metadata"
  shows "FinalizeBind db file_options global_columns global_column_ids reader_data (Some gs)
     = (if partition_map file_metadata \<noteq> [] then
            (case FinalizeBind_loop db global_columns (partition_map file_metadata) 0
                    global_column_ids
                    (constant_map (with_file_number file_options gs reader_data)) of
               Inl e \<Rightarrow> Inl e
             | Inr cm \<Rightarrow> Inr ((with_file_number file_options gs reader_data)\<lparr>constant_map := cm\<rparr>))
          else Inr (with_file_number file_options gs reader_data))"
proof (cases "ci_find (custom_options file_options) ''delta_file_number'' = Some True")
  case True
  with assms show ?thesis
    by (simp add: FinalizeBind_def with_file_number_def cong: sum.case_cong)
next
  case False
  then have "(case ci_find (custom_options file_options) ''delta_file_number'' of
              Some True \<Rightarrow>
                (case Some gs of
                   None \<Rightarrow> Inl (InternalException ''optional_ptr is not set'')
                 | Some delta_global_state \<Rightarrow>
                     Inr (reader_data\<lparr>constant_map := constant_map reader_data
                            @ [(delta_file_number_idx delta_global_state, Value_UBIGINT 0)]\<rparr>))
            | _ \<Rightarrow> Inr reader_data) = Inr reader_data"
    by (auto split: option.splits bool.splits)
  with False assms show ?thesis
    by (simp add: FinalizeBind_def with_file_number_def cong: sum.case_cong)
qed

text \<open>
  Claim C4. For a file whose partition map has the name of a projected column that is
  not the row id (the lookup ignores case), the per-file bind adds a constant for the
  column: the raw bytes of the partition string when the global type is \<open>BLOB\<close>, and
  otherwise the partition string cast to the global type. The column mapping of the file
  then reads no column of the file for it.
\<close>

theorem partition_column_is_constant:
  assumes "FinalizeBind db file_options global_columns global_column_ids reader_data (Some gs)
             = Inr rd"
    and "file_list gs = Some snapshot_list" and "file_list_idx reader_data = Some idx"
    and "GetMetaData snapshot_list idx = Inr file_metadata"
    and "i < length global_column_ids" and "\<not> IsRowIdColumnId (global_column_ids ! i)"
    and "global_column_ids ! i < length global_columns"
    and "ci_find (partition_map file_metadata)
           (name (global_columns ! (global_column_ids ! i))) = Some partition_val"
  shows "partition_constant db (global_columns ! (global_column_ids ! i)) partition_val i
           (constant_map rd)
       \<and> (\<forall>local_columns gstate rd2.
             i \<notin> set (column_mapping reader_data) \<longrightarrow>
             CreateColumnMapping local_columns global_columns global_column_ids rd gstate
               = Inr rd2 \<longrightarrow>
             i \<notin> set (column_mapping rd2))"
proof -
  from assms(8) have ne: "partition_map file_metadata \<noteq> []" by auto
  define rd1 where "rd1 = with_file_number file_options gs reader_data"
  have r1: "column_mapping rd1 = column_mapping reader_data"
    by (simp add: rd1_def with_file_number_def)
  from assms(1) ne obtain cm where
    l: "FinalizeBind_loop db global_columns (partition_map file_metadata) 0
          global_column_ids (constant_map rd1) = Inr cm"
    and rd: "rd = rd1\<lparr>constant_map := cm\<rparr>"
    unfolding FinalizeBind_with_metadata [OF assms(2,3,4)] rd1_def
    by (auto split: sum.splits)
  from FinalizeBind_loop_adds [OF l] assms(5,6,7,8)
  have a: "partition_constant db (global_columns ! (global_column_ids ! i)) partition_val
             (0 + i) cm"
    by blast
  then obtain v where "(i, v) \<in> set cm"
    unfolding partition_constant_def by auto
  then have "\<exists>e\<in>set cm. fst e = i" by force
  then have c: "list_ex (\<lambda>e. fst e = i) (constant_map rd)"
    using rd by (simp add: list_ex_iff)
  have b: "\<forall>local_columns gstate rd2.
             i \<notin> set (column_mapping reader_data) \<longrightarrow>
             CreateColumnMapping local_columns global_columns global_column_ids rd gstate
               = Inr rd2 \<longrightarrow>
             i \<notin> set (column_mapping rd2)"
  proof (intro allI impI)
    fix local_columns gstate rd2
    assume n: "i \<notin> set (column_mapping reader_data)"
      and m: "CreateColumnMapping local_columns global_columns global_column_ids rd gstate
               = Inr rd2"
    from n r1 rd have "i \<notin> set (column_mapping rd)" by simp
    from CreateColumnMapping_not_read [OF m assms(5) this c]
    show "i \<notin> set (column_mapping rd2)" .
  qed
  from a b rd show ?thesis by simp
qed

lemma result_from_isl: "\<not> isl r \<Longrightarrow> r = Inr (projr r)"
  by (cases r) auto

lemmas reader_eval = FinalizeBind_def GetMetaData_def vector_at_def IsRowIdColumnId_def
  COLUMN_IDENTIFIER_ROW_ID_def new_DeltaFileMetaData_def INVALID_INDEX_def
  CreateColumnMapping_def CustomMulfiFileNameMapping_def local_name_map_def Let_def

theorem partition_column_is_constant_witness:
  "FinalizeBind ex_db ex_options ex_global_columns [1, 0] ex_reader_data (Some ex_gstate)
     = Inr ex_reader_bound
   \<and> (0, Value_VARCHAR ''us'') \<in> set (constant_map ex_reader_bound)
   \<and> CreateColumnMapping ex_local_columns ex_global_columns [1, 0] ex_reader_bound
        (Some ex_gstate) = Inr ex_reader_mapped
   \<and> 0 \<notin> set (column_mapping ex_reader_mapped)"
proof -
  have h1: "FinalizeBind ex_db ex_options ex_global_columns [1, 0] ex_reader_data
              (Some ex_gstate) = Inr ex_reader_bound"
    by (simp add: reader_eval ci_eval ex_defs ex_options_def ex_global_columns_def
        ex_reader_data_def ex_gstate_def ex_list_part_def ex_reader_bound_def)
  have h2: "file_list ex_gstate = Some ex_list_part" by (simp add: ex_gstate_def)
  have h3: "file_list_idx ex_reader_data = Some 0" by (simp add: ex_reader_data_def)
  have h4: "GetMetaData ex_list_part 0
              = Inr (new_DeltaFileMetaData\<lparr>partition_map := [(''Region'', ''us'')]\<rparr>)"
    by (simp add: GetMetaData_def vector_at_def ex_list_part_def ex_list_def)
  have h5: "0 < length [1::nat, 0]" by simp
  have h6: "\<not> IsRowIdColumnId ([1, 0] ! 0)"
    by (simp add: IsRowIdColumnId_def COLUMN_IDENTIFIER_ROW_ID_def)
  have h7: "[1, 0] ! 0 < length ex_global_columns" by (simp add: ex_global_columns_def)
  have h8: "ci_find (partition_map (new_DeltaFileMetaData\<lparr>partition_map := [(''Region'', ''us'')]\<rparr>))
           (name (ex_global_columns ! ([1, 0] ! 0))) = Some ''us''"
    by (simp add: ex_global_columns_def ci_eval)
  have n: "0 \<notin> set (column_mapping ex_reader_data)" by (simp add: ex_reader_data_def)
  have "\<not> isl (CreateColumnMapping ex_local_columns ex_global_columns [1, 0] ex_reader_bound
        (Some ex_gstate))"
    by (simp add: reader_eval ci_eval ex_local_columns_def ex_global_columns_def
        ex_reader_bound_def ex_reader_data_def ex_gstate_def)
  then have m: "CreateColumnMapping ex_local_columns ex_global_columns [1, 0] ex_reader_bound
        (Some ex_gstate) = Inr ex_reader_mapped"
    unfolding ex_reader_mapped_def by (rule result_from_isl)
  from partition_column_is_constant [OF h1 h2 h3 h4 h5 h6 h7 h8] n m
  have "0 \<notin> set (column_mapping ex_reader_mapped)" by blast
  moreover have "(0, Value_VARCHAR ''us'') \<in> set (constant_map ex_reader_bound)"
    by (simp add: ex_reader_bound_def)
  ultimately show ?thesis using h1 m by simp
qed

subsection \<open>The synthetic columns\<close>

lemma find_map_index:
  "find P (map f xs) = (case find (\<lambda>x. P (f x)) xs of None \<Rightarrow> None | Some x \<Rightarrow> Some (f x))"
  by (induction xs) auto

lemma find_upt_Suc:
  "find P [0..<Suc n] =
     (if P 0 then Some 0
      else case find (\<lambda>j. P (Suc j)) [0..<n] of None \<Rightarrow> None | Some j \<Rightarrow> Some (Suc j))"
proof -
  have "[0..<Suc n] = 0 # map Suc [0..<n]"
    by (simp add: upt_conv_Cons map_Suc_upt del: upt_Suc)
  then show ?thesis by (simp add: find_map_index del: upt_Suc)
qed

lemma selected_columns_loop_find:
  "selected_columns_loop gc i ids sel = Inr sel' \<Longrightarrow>
     ci_find sel' nm =
       (case ci_find sel nm of
          Some v \<Rightarrow> Some v
        | None \<Rightarrow>
            (case find (\<lambda>j. \<not> IsRowIdColumnId (ids ! j) \<and> CIEquals (name (gc ! (ids ! j))) nm)
                    [0..<length ids] of
               None \<Rightarrow> None
             | Some j \<Rightarrow> Some (i + j)))"
proof (induction ids arbitrary: i sel)
  case Nil
  then show ?case by (auto split: option.splits)
next
  case (Cons global_id ids)
  show ?case
  proof (cases "IsRowIdColumnId global_id")
    case True
    with Cons.prems have "selected_columns_loop gc (i + 1) ids sel = Inr sel'" by simp
    from Cons.IH [OF this] True show ?thesis
      by (auto simp: find_upt_Suc simp del: upt_Suc split: option.splits)
  next
    case False
    with Cons.prems have inr: "global_id < length gc"
      and l: "selected_columns_loop gc (i + 1) ids (ci_insert sel (name (gc ! global_id)) i)
                = Inr sel'"
      by (auto simp: vector_at_def split: if_splits)
    from Cons.IH [OF l] False show ?thesis
      by (auto simp: find_upt_Suc ci_find_insert simp del: upt_Suc split: option.splits)
  qed
qed

lemma InitializeGlobalState_selected:
  assumes "InitializeGlobalState db file_options fl gc ids = Inr gs"
  shows "\<exists>selected. (\<forall>nm. ci_find selected nm = projected_index gc ids nm) \<and>
           (case mapped_columns_loop selected (length ids)
                  (columns_to_map db file_options) ([], [], 0) of
             (mapped_columns, extra, col_offset) \<Rightarrow>
               SetColumnIdx_loop (new_DeltaMultiFileReaderGlobalState extra (Some fl))
                 mapped_columns) = Inr gs"
proof -
  from assms obtain selected where s: "selected_columns_loop gc 0 ids [] = Inr selected"
    and r: "(case mapped_columns_loop selected (length ids)
                  (columns_to_map db file_options) ([], [], 0) of
             (mapped_columns, extra, col_offset) \<Rightarrow>
               SetColumnIdx_loop (new_DeltaMultiFileReaderGlobalState extra (Some fl))
                 mapped_columns) = Inr gs"
    by (auto simp: InitializeGlobalState_def split: sum.splits)
  have "\<forall>nm. ci_find selected nm = projected_index gc ids nm"
    using selected_columns_loop_find [OF s]
    by (auto simp: projected_index_def split: option.splits)
  with r show ?thesis by blast
qed

text \<open>
  \<open>InitializeGlobalState\<close> returns exactly when every projected column that is not the row
  id is a column of the global schema: the loops have no other exception, since the two
  required names are the ones \<open>SetColumnIdx\<close> knows.
\<close>

lemma selected_columns_loop_returns:
  "\<forall>global_id \<in> set ids. \<not> IsRowIdColumnId global_id \<longrightarrow> global_id < length gc \<Longrightarrow>
     \<exists>sel'. selected_columns_loop gc i ids sel = Inr sel'"
  by (induction ids arbitrary: i sel) (auto simp: vector_at_def)

lemma selected_columns_loop_in_range:
  "selected_columns_loop gc i ids sel = Inr sel' \<Longrightarrow>
     \<forall>global_id \<in> set ids. \<not> IsRowIdColumnId global_id \<longrightarrow> global_id < length gc"
  by (induction ids arbitrary: i sel) (auto simp: vector_at_def split: if_splits sum.splits)

lemma mapped_columns_loop_names:
  "mapped_columns_loop sel n req (m, e, c) = (m', e', c') \<Longrightarrow>
     map fst m' = map fst m @ map fst req"
  by (induction req arbitrary: m e c) (auto split: option.splits)

lemma SetColumnIdx_loop_returns:
  "\<forall>nm \<in> set (map fst m). nm = ''file_row_number'' \<or> nm = ''delta_file_number'' \<Longrightarrow>
     \<exists>gs'. SetColumnIdx_loop gs m = Inr gs'"
  by (induction m arbitrary: gs) (auto simp: SetColumnIdx_def)

lemma columns_to_map_names:
  "\<forall>nm \<in> set (map fst (columns_to_map db file_options)).
     nm = ''file_row_number'' \<or> nm = ''delta_file_number''"
  by (auto simp: columns_to_map_def split: option.splits bool.splits)

lemma InitializeGlobalState_returns:
  assumes "\<forall>global_id \<in> set ids. \<not> IsRowIdColumnId global_id \<longrightarrow> global_id < length gc"
  shows "\<exists>gs. InitializeGlobalState db file_options fl gc ids = Inr gs"
proof -
  from selected_columns_loop_returns [OF assms] obtain sel where
    s: "selected_columns_loop gc 0 ids [] = Inr sel" by blast
  obtain m e c where
    l: "mapped_columns_loop sel (length ids) (columns_to_map db file_options) ([], [], 0) = (m, e, c)"
    by (cases "mapped_columns_loop sel (length ids) (columns_to_map db file_options) ([], [], 0)")
  from mapped_columns_loop_names [OF l] columns_to_map_names [of db file_options]
  have "\<forall>nm \<in> set (map fst m). nm = ''file_row_number'' \<or> nm = ''delta_file_number''"
    by simp
  from SetColumnIdx_loop_returns [OF this] s l show ?thesis
    by (simp add: InitializeGlobalState_def)
qed

lemma InitializeGlobalState_in_range:
  assumes "InitializeGlobalState db file_options fl gc ids = Inr gs"
  shows "\<forall>global_id \<in> set ids. \<not> IsRowIdColumnId global_id \<longrightarrow> global_id < length gc"
proof -
  from assms obtain sel where "selected_columns_loop gc 0 ids [] = Inr sel"
    by (auto simp: InitializeGlobalState_def split: sum.splits)
  then show ?thesis by (rule selected_columns_loop_in_range)
qed

lemma InitializeGlobalState_result:
  assumes "InitializeGlobalState db file_options fl global_columns global_column_ids = Inr gs"
  shows "file_row_number_idx gs =
           (case projected_index global_columns global_column_ids ''file_row_number'' of
              Some i \<Rightarrow> i
            | None \<Rightarrow>
                length global_column_ids +
                (if delta_file_number_enabled file_options \<and> inserted_key_iterates_first db \<and>
                    projected_index global_columns global_column_ids ''delta_file_number'' = None
                 then 1 else 0))
       \<and> delta_file_number_idx gs =
           (if delta_file_number_enabled file_options then
              (case projected_index global_columns global_column_ids ''delta_file_number'' of
                 Some i \<Rightarrow> i
               | None \<Rightarrow>
                   length global_column_ids +
                   (if \<not> inserted_key_iterates_first db \<and>
                       projected_index global_columns global_column_ids ''file_row_number'' = None
                    then 1 else 0))
            else INVALID_INDEX)
       \<and> (projected_index global_columns global_column_ids ''file_row_number'' = None \<longrightarrow>
            file_row_number_idx gs - length global_column_ids < length (extra_columns gs) \<and>
            extra_columns gs ! (file_row_number_idx gs - length global_column_ids) = BIGINT)
       \<and> (delta_file_number_enabled file_options \<and>
          projected_index global_columns global_column_ids ''delta_file_number'' = None \<longrightarrow>
            delta_file_number_idx gs - length global_column_ids < length (extra_columns gs) \<and>
            extra_columns gs ! (delta_file_number_idx gs - length global_column_ids) = UBIGINT)"
proof -
  from InitializeGlobalState_selected [OF assms] obtain selected where
    f: "\<And>nm. ci_find selected nm = projected_index global_columns global_column_ids nm"
    and r: "(case mapped_columns_loop selected (length global_column_ids)
                  (columns_to_map db file_options) ([], [], 0) of
             (mapped_columns, extra, col_offset) \<Rightarrow>
               SetColumnIdx_loop (new_DeltaMultiFileReaderGlobalState extra (Some fl))
                 mapped_columns) = Inr gs"
    by blast
  show ?thesis
  proof (cases "delta_file_number_enabled file_options")
    case False
    then have c: "columns_to_map db file_options = [(''file_row_number'', BIGINT)]"
      by (auto simp: columns_to_map_def delta_file_number_enabled_def
          split: option.splits bool.splits)
    from r False show ?thesis
      unfolding c
      by (auto simp: f SetColumnIdx_def new_DeltaMultiFileReaderGlobalState_def
          split: option.splits)
  next
    case True
    then have e: "ci_find (custom_options file_options) ''delta_file_number'' = Some True"
      by (simp add: delta_file_number_enabled_def)
    show ?thesis
    proof (cases "inserted_key_iterates_first db")
      case first: True
      with e have c: "columns_to_map db file_options =
          [(''delta_file_number'', UBIGINT), (''file_row_number'', BIGINT)]"
        by (simp add: columns_to_map_def)
      from r True first show ?thesis
        unfolding c
        by (auto simp: f SetColumnIdx_def new_DeltaMultiFileReaderGlobalState_def
            split: option.splits)
    next
      case last: False
      with e have c: "columns_to_map db file_options =
          [(''file_row_number'', BIGINT), (''delta_file_number'', UBIGINT)]"
        by (simp add: columns_to_map_def)
      from r True last show ?thesis
        unfolding c
        by (auto simp: f SetColumnIdx_def new_DeltaMultiFileReaderGlobalState_def
            split: option.splits)
    qed
  qed
qed

lemmas global_state_eval = InitializeGlobalState_def columns_to_map_def SetColumnIdx_def
  new_DeltaMultiFileReaderGlobalState_def vector_at_def IsRowIdColumnId_def
  COLUMN_IDENTIFIER_ROW_ID_def ci_insert_def

text \<open>
  Claim C8. When every projected column that is not the row id is a column of the global
  schema, \<open>InitializeGlobalState\<close> returns a state, and in it \<open>file_row_number\<close>, and
  \<open>delta_file_number\<close> when the option is set, are mapped to the position of the first
  projected column of that name (compared without regard to case) when there is one, and
  otherwise to a position after the projected columns: the number of projected columns
  for the first absent column that the loop over the required columns meets, and one
  more for the second; the type of the column stands at that place among the extra
  columns. The order of the loop is the iteration order of an unordered map with these
  two keys, fixed by the standard library, so the positions are a function of the
  projection and the options. (With a projected column outside the global schema the
  function throws, \<open>InitializeGlobalState_in_range\<close>.)
\<close>

theorem InitializeGlobalState_indices:
  assumes "\<forall>global_id \<in> set global_column_ids.
             \<not> IsRowIdColumnId global_id \<longrightarrow> global_id < length global_columns"
  shows "\<exists>gs. InitializeGlobalState db file_options fl global_columns global_column_ids = Inr gs \<and>
         file_row_number_idx gs =
           (case projected_index global_columns global_column_ids ''file_row_number'' of
              Some i \<Rightarrow> i
            | None \<Rightarrow>
                length global_column_ids +
                (if delta_file_number_enabled file_options \<and> inserted_key_iterates_first db \<and>
                    projected_index global_columns global_column_ids ''delta_file_number'' = None
                 then 1 else 0))
       \<and> delta_file_number_idx gs =
           (if delta_file_number_enabled file_options then
              (case projected_index global_columns global_column_ids ''delta_file_number'' of
                 Some i \<Rightarrow> i
               | None \<Rightarrow>
                   length global_column_ids +
                   (if \<not> inserted_key_iterates_first db \<and>
                       projected_index global_columns global_column_ids ''file_row_number'' = None
                    then 1 else 0))
            else INVALID_INDEX)
       \<and> (projected_index global_columns global_column_ids ''file_row_number'' = None \<longrightarrow>
            file_row_number_idx gs - length global_column_ids < length (extra_columns gs) \<and>
            extra_columns gs ! (file_row_number_idx gs - length global_column_ids) = BIGINT)
       \<and> (delta_file_number_enabled file_options \<and>
          projected_index global_columns global_column_ids ''delta_file_number'' = None \<longrightarrow>
            delta_file_number_idx gs - length global_column_ids < length (extra_columns gs) \<and>
            extra_columns gs ! (delta_file_number_idx gs - length global_column_ids) = UBIGINT)"
proof -
  from InitializeGlobalState_returns [OF assms] obtain gs where
    g: "InitializeGlobalState db file_options fl global_columns global_column_ids = Inr gs"
    by blast
  show ?thesis
    by (rule exI [of _ gs]) (rule conjI [OF g InitializeGlobalState_result [OF g]])
qed

theorem InitializeGlobalState_indices_witness:
  "InitializeGlobalState ex_db ex_options_file_number ex_list ex_global_columns_row_number [3, 0]
     = Inr ex_gstate_indices
   \<and> projected_index ex_global_columns_row_number [3, 0] ''file_row_number'' = Some 0
   \<and> projected_index ex_global_columns_row_number [3, 0] ''delta_file_number'' = None
   \<and> file_row_number_idx ex_gstate_indices = 0
   \<and> delta_file_number_idx ex_gstate_indices = 2
   \<and> extra_columns ex_gstate_indices ! 0 = UBIGINT"
proof -
  have h: "InitializeGlobalState ex_db ex_options_file_number ex_list
             ex_global_columns_row_number [3, 0] = Inr ex_gstate_indices"
    by (simp add: global_state_eval ci_eval ex_db_def ex_options_file_number_def
        ex_global_columns_row_number_def ex_global_columns_def ex_gstate_indices_def)
  have p1: "projected_index ex_global_columns_row_number [3, 0] ''file_row_number'' = Some 0"
    by (simp add: projected_index_def ex_global_columns_row_number_def ex_global_columns_def
        IsRowIdColumnId_def COLUMN_IDENTIFIER_ROW_ID_def ci_eval upt_rec)
  have p2: "projected_index ex_global_columns_row_number [3, 0] ''delta_file_number'' = None"
    by (simp add: projected_index_def ex_global_columns_row_number_def ex_global_columns_def
        IsRowIdColumnId_def COLUMN_IDENTIFIER_ROW_ID_def ci_eval upt_rec)
  have e: "delta_file_number_enabled ex_options_file_number"
    by (simp add: delta_file_number_enabled_def ex_options_file_number_def ci_eval)
  have i: "inserted_key_iterates_first ex_db" by (simp add: ex_db_def)
  have r: "\<forall>global_id \<in> set [3, 0::nat].
      \<not> IsRowIdColumnId global_id \<longrightarrow> global_id < length ex_global_columns_row_number"
    by (simp add: ex_global_columns_row_number_def ex_global_columns_def)
  from InitializeGlobalState_indices [OF r, where db = ex_db
      and file_options = ex_options_file_number and fl = ex_list] h p1 p2 e i
  have "file_row_number_idx ex_gstate_indices = 0 \<and>
        delta_file_number_idx ex_gstate_indices = 2"
    by simp
  moreover have "extra_columns ex_gstate_indices ! 0 = UBIGINT"
    by (simp add: ex_gstate_indices_def)
  ultimately show ?thesis using h p1 p2 by simp
qed

section \<open>Properties of the resolved paths\<close>

















end
